theory Spec2Isabelle
  imports Main "HOL-Library.Sublist"
begin

section \<open>Strings\<close>

text \<open>
  JavaScript strings are modelled as \<open>string\<close>: a list of characters whose code is the
  code unit, which covers the code units below 256 (ASCII and Latin-1).  \<open>startsWith\<close>
  and \<open>str_includes\<close> are \<open>String.prototype.startsWith\<close> and \<open>String.prototype.includes\<close>.
\<close>

definition startsWith :: "string \<Rightarrow> string \<Rightarrow> bool" where
  "startsWith s p = prefix p s"

definition str_includes :: "string \<Rightarrow> string \<Rightarrow> bool" where
  "str_includes s sub = sublist sub s"

text \<open>\<open>s.split(c)\<close> for a one-character separator: always at least one piece.\<close>

fun split_on :: "char \<Rightarrow> string \<Rightarrow> string list" where
  "split_on c [] = [[]]"
| "split_on c (x # xs) =
     (if x = c then [] # split_on c xs
      else (case split_on c xs of [] \<Rightarrow> [[x]] | p # ps \<Rightarrow> (x # p) # ps))"

text \<open>\<open>parts.join(sep)\<close>.\<close>

fun join :: "string \<Rightarrow> string list \<Rightarrow> string" where
  "join sep [] = []"
| "join sep [p] = p"
| "join sep (p # q # ps) = p @ sep @ join sep (q # ps)"

text \<open>A JavaScript value used as a condition: \<open>null\<close>, \<open>undefined\<close> and the empty
  string are falsy, every other string is truthy.\<close>

definition truthy :: "string option \<Rightarrow> bool" where
  "truthy v = (case v of None \<Rightarrow> False | Some x \<Rightarrow> x \<noteq> [])"

section \<open>Query strings: \<open>URLSearchParams\<close>\<close>

text \<open>
  A \<open>URLSearchParams\<close> object is its list of name-value pairs.  The two directions of
  the \<open>application/x-www-form-urlencoded\<close> format follow the URL standard that Node
  implements.  Parsing drops one leading \<open>?\<close>, splits at \<open>&\<close>, skips empty pieces,
  splits each piece at its first \<open>=\<close> and decodes name and value; the decoder (plus sign
  to space, percent-decoding, UTF-8 decoding) is the parameter \<open>dec\<close>.
\<close>

type_synonym searchParams = "(string \<times> string) list"

definition parse_pair :: "(string \<Rightarrow> string) \<Rightarrow> string \<Rightarrow> string \<times> string" where
  "parse_pair dec piece =
     (dec (takeWhile (\<lambda>c. c \<noteq> CHR ''='') piece),
      dec (drop 1 (dropWhile (\<lambda>c. c \<noteq> CHR ''='') piece)))"

definition URLSearchParams :: "(string \<Rightarrow> string) \<Rightarrow> string \<Rightarrow> searchParams" where
  "URLSearchParams dec init =
     (let input = (case init of [] \<Rightarrow> [] | c # cs \<Rightarrow> if c = CHR ''?'' then cs else c # cs)
      in map (parse_pair dec) (filter (\<lambda>piece. piece \<noteq> []) (split_on CHR ''&'' input)))"

text \<open>\<open>params.get(name)\<close>: the value of the first pair with that name, else \<open>null\<close>.\<close>

definition params_get :: "searchParams \<Rightarrow> string \<Rightarrow> string option" where
  "params_get ps name = map_of ps name"




text \<open>
  Serialising (\<open>params.toString()\<close>): every character outside the ASCII letters, digits
  and \<open>* - . _\<close> is percent-encoded, a space becomes \<open>+\<close>; a code unit from 128 to 255
  is first encoded in UTF-8 (two bytes).
\<close>

definition hex_digit :: "nat \<Rightarrow> char" where
  "hex_digit n = ''0123456789ABCDEF'' ! (n mod 16)"

definition percent_byte :: "nat \<Rightarrow> string" where
  "percent_byte b = [CHR ''%'', hex_digit (b div 16), hex_digit b]"

definition form_unreserved :: "char \<Rightarrow> bool" where
  "form_unreserved c =
     (c \<in> set ''ABCDEFGHIJKLMNOPQRSTUVWXYZabcdefghijklmnopqrstuvwxyz0123456789*-._'')"

definition form_encode_char :: "char \<Rightarrow> string" where
  "form_encode_char c =
     (if form_unreserved c then [c]
      else if c = CHR '' '' then ''+''
      else (let n = (of_char c :: nat) in
        if n < 128 then percent_byte n
        else percent_byte (192 + n div 64) @ percent_byte (128 + n mod 64)))"

definition form_encode :: "string \<Rightarrow> string" where
  "form_encode s = concat (map form_encode_char s)"

definition sp_toString :: "searchParams \<Rightarrow> string" where
  "sp_toString ps = join ''&'' (map (\<lambda>(k, v). form_encode k @ ''='' @ form_encode v) ps)"

section \<open>File paths: Node's \<open>path\<close> module on POSIX\<close>

text \<open>
  \<open>path.join\<close> joins its non-empty arguments with \<open>/\<close> and normalises the result:
  empty and \<open>.\<close> segments are dropped, a \<open>..\<close> segment removes the segment before it
  (at the root of an absolute path it is dropped, at the start of a relative path it is
  kept), a trailing slash is kept.
\<close>

definition norm_step :: "bool \<Rightarrow> string list \<Rightarrow> string \<Rightarrow> string list" where
  "norm_step allowAboveRoot res seg =
     (if seg = [] \<or> seg = ''.'' then res
      else if seg = ''..'' then
        (if res \<noteq> [] \<and> last res \<noteq> ''..'' then butlast res
         else if allowAboveRoot then res @ [''..''] else res)
      else res @ [seg])"

definition normalizeString :: "string \<Rightarrow> bool \<Rightarrow> string list" where
  "normalizeString p allowAboveRoot = foldl (norm_step allowAboveRoot) [] (split_on CHR ''/'' p)"

definition path_normalize :: "string \<Rightarrow> string" where
  "path_normalize p =
     (if p = [] then ''.''
      else
        (let isAbsolute = (hd p = CHR ''/'');
             trailingSeparator = (last p = CHR ''/'');
             segs = normalizeString p (\<not> isAbsolute)
         in if segs = [] then (if isAbsolute then ''/'' else if trailingSeparator then ''./'' else ''.'')
            else (if isAbsolute then ''/'' else []) @ join ''/'' segs
                   @ (if trailingSeparator then ''/'' else [])))"

definition path_join :: "string \<Rightarrow> string \<Rightarrow> string" where
  "path_join a b =
     (let parts = filter (\<lambda>x. x \<noteq> []) [a, b]
      in if parts = [] then ''.'' else path_normalize (join ''/'' parts))"

text \<open>
  \<open>path.extname\<close>: from the last \<open>.\<close> of the last segment of the path (trailing slashes
  ignored) to its end; empty when that segment has no dot, starts with its only dot, or
  is \<open>..\<close>.
\<close>

definition path_basename :: "string \<Rightarrow> string" where
  "path_basename p =
     (let q = rev (dropWhile (\<lambda>c. c = CHR ''/'') (rev p))
      in rev (takeWhile (\<lambda>c. c \<noteq> CHR ''/'') (rev q)))"

definition path_extname :: "string \<Rightarrow> string" where
  "path_extname p =
     (let b = path_basename p;
          after = rev (takeWhile (\<lambda>c. c \<noteq> CHR ''.'') (rev b));
          dot = length b - length after - 1
      in if CHR ''.'' \<notin> set b \<or> dot = 0 \<or> b = ''..'' then [] else drop dot b)"

text \<open>
  The components of a path, and a path being inside a directory: the directory's
  components are the first components of the path.
\<close>

definition components :: "string \<Rightarrow> string list" where
  "components p = filter (\<lambda>seg. seg \<noteq> []) (split_on CHR ''/'' p)"

definition inside :: "string \<Rightarrow> string \<Rightarrow> bool" where
  "inside dir p = prefix (components dir) (components p)"

section \<open>The development proxy (\<open>dev-proxy.js\<close>)\<close>

subsection \<open>Configuration, state and the outside world\<close>

text \<open>
  \<open>EDO_API_BASE\<close> and \<open>REDIRECT_URI\<close> are computed from the environment at startup,
  \<open>dirname\<close> is \<open>__dirname\<close>; the OAuth constants are compiled in.
\<close>

record config =
  EDO_API_BASE :: string
  REDIRECT_URI :: string
  dirname :: string

definition CLIENT_ID :: string where
  "CLIENT_ID = ''66ca0383-bf0c-4dc8-9d57-c852c06a9413''"

definition TENANT_ID :: string where
  "TENANT_ID = ''48d03f3f-62a3-401f-b4a2-2514758215ac''"

definition POLICY :: string where
  "POLICY = ''B2C_1A_MULTITENANT''"

definition B2C_HOST :: string where
  "B2C_HOST = ''login.edoenergy.com''"

definition SCOPES :: "string list" where
  "SCOPES =
     [''https://edoapps.onmicrosoft.com/services/point.read'',
      ''https://edoapps.onmicrosoft.com/services/timeseries.read'',
      ''https://edoapps.onmicrosoft.com/services/bill.read'',
      ''https://edoapps.onmicrosoft.com/services/building.read'']"

text \<open>
  The module's variables: \<open>_token\<close> (\<open>None\<close> is \<open>null\<close>), \<open>_tokenExpiry\<close> in
  milliseconds (\<open>None\<close> is \<open>NaN\<close>, which \<open>persistToken\<close> stores when the token response
  has no numeric \<open>expires_in\<close>), and the map \<open>_pkce\<close> from state to verifier.  Times are
  integers.
\<close>

record server_state =
  token :: "string option"
  tokenExpiry :: "int option"
  pkce :: "string \<rightharpoonup> string"

text \<open>A request as \<open>url.parse\<close> presents it; Node lower-cases the header names.\<close>

record request =
  req_method :: string
  pathname :: string
  search :: "string option"
  req_headers :: "string \<rightharpoonup> string"
  req_body :: string

datatype json = JNull | JBool bool | JStr string | JObj "(string \<times> json) list"

text \<open>
  A response body: nothing, a text, the HTML of \<open>page(heading, detail, isError)\<close>,
  \<open>JSON.stringify\<close> of a value, the bytes of a file, or the piped upstream body.
\<close>

datatype body =
  NoBody
  | Text string
  | Page string string bool
  | JsonBody json
  | FileData string
  | Piped string

record response =
  status :: nat
  headers :: "(string \<times> string) list"
  content :: body

text \<open>What the proxy sends upstream (the options of \<open>lib.request\<close> and the piped body).\<close>

record proxy_request =
  fwd_secure :: bool
  fwd_hostname :: string
  fwd_port :: string
  fwd_path :: string
  fwd_method :: string
  fwd_headers :: "(string \<times> string) list"
  fwd_body :: "string option"

record parsed_url =
  url_protocol :: string
  url_hostname :: string
  url_port :: string
  url_pathname :: string
  url_search :: string

record token_response =
  access_token :: "string option"
  expires_in :: "int option"
  error_description :: "string option"
  error :: "string option"

text \<open>
  \<open>exchangeCode\<close> ends in one of two ways inside the \<open>try\<close> of the callback: an
  exception with a message (the request failed, the reply was not JSON, or the reply was
  JSON without properties), or the parsed reply.
\<close>

datatype exchange_outcome = Threw string | Returned token_response

datatype upstream_outcome =
  UpstreamResponse nat "string \<rightharpoonup> string" string
  | UpstreamError string

datatype fs_error = ENOENT | OtherError

text \<open>
  Everything a request reads from outside the module: the clock, the random state and
  verifier (already base64url-encoded), the PKCE challenge of a verifier, the
  form decoder, the identity provider's answer to an exchange of \<open>(code, verifier)\<close>,
  the WHATWG URL parser (\<open>None\<close> when \<open>new URL\<close> throws), the upstream API and the file
  system.
\<close>

record env =
  now :: int
  fresh_state :: string
  fresh_verifier :: string
  challenge_of :: "string \<Rightarrow> string"
  form_decode :: "string \<Rightarrow> string"
  exchange :: "string \<Rightarrow> string \<Rightarrow> exchange_outcome"
  new_URL :: "string \<Rightarrow> parsed_url option"
  upstream :: "proxy_request \<Rightarrow> upstream_outcome"
  readFile :: "string \<Rightarrow> fs_error + string"

text \<open>What a request does besides answering: the calls that leave the process.\<close>

datatype effect =
  ExchangeCode string string
  | WriteCache "string option" "int option"
  | Forward proxy_request
  | ReadFile string

type_synonym outcome = "response \<times> server_state \<times> effect list"

datatype js_error = TypeError

subsection \<open>Token cache\<close>

text \<open>The cache file, when it parses: \<open>access_token\<close> and \<open>expires_on\<close> in seconds.\<close>

record cache_file =
  cached_token :: "string option"
  expires_on :: "int option"

definition initial_state :: server_state where
  "initial_state = \<lparr>token = None, tokenExpiry = Some 0, pkce = Map.empty\<rparr>"

definition restore :: "int \<Rightarrow> cache_file option \<Rightarrow> server_state" where
  "restore t c =
     (case c of
        None \<Rightarrow> initial_state
      | Some f \<Rightarrow>
          (case expires_on f of
             None \<Rightarrow> initial_state
           | Some secs \<Rightarrow>
               if truthy (cached_token f) \<and> secs * 1000 > t + 60000
               then initial_state\<lparr>token := cached_token f, tokenExpiry := Some (secs * 1000)\<rparr>
               else initial_state))"

definition tokenValid :: "int \<Rightarrow> server_state \<Rightarrow> bool" where
  "tokenValid t s =
     (truthy (token s) \<and> (case tokenExpiry s of None \<Rightarrow> False | Some x \<Rightarrow> x > t + 60000))"

definition persistToken :: "int \<Rightarrow> token_response \<Rightarrow> server_state \<Rightarrow> server_state \<times> effect" where
  "persistToken t result s =
     (let expiry = (case expires_in result of None \<Rightarrow> None | Some n \<Rightarrow> Some (t + n * 1000))
      in (s\<lparr>token := access_token result, tokenExpiry := expiry\<rparr>,
          WriteCache (access_token result)
            (case expiry of None \<Rightarrow> None | Some x \<Rightarrow> Some (x div 1000))))"

subsection \<open>PKCE session store\<close>

text \<open>
  The two uses of \<open>_pkce\<close>: \<open>_pkce.set(state, verifier)\<close> in \<open>/oauth/start\<close>, and
  \<open>_pkce.get(state)\<close> followed by \<open>_pkce.delete(state)\<close> in the callback.
\<close>

definition pkce_begin :: "string \<Rightarrow> string \<Rightarrow> (string \<rightharpoonup> string) \<Rightarrow> (string \<rightharpoonup> string)" where
  "pkce_begin st verifier m = m(st \<mapsto> verifier)"

definition pkce_complete :: "string \<Rightarrow> (string \<rightharpoonup> string) \<Rightarrow> string option \<times> (string \<rightharpoonup> string)" where
  "pkce_complete st m = (m st, m(st := None))"

subsection \<open>Request handler\<close>

definition MIME :: "string \<rightharpoonup> string" where
  "MIME =
     [''.html'' \<mapsto> ''text/html; charset=utf-8'',
      ''.js'' \<mapsto> ''application/javascript'',
      ''.css'' \<mapsto> ''text/css'',
      ''.json'' \<mapsto> ''application/json'',
      ''.svg'' \<mapsto> ''image/svg+xml'',
      ''.png'' \<mapsto> ''image/png'',
      ''.ico'' \<mapsto> ''image/x-icon'',
      ''.woff2'' \<mapsto> ''font/woff2'']"

text \<open>The three CORS headers that \<open>handleRequest\<close> sets on every response first.\<close>

definition cors :: "(string \<times> string) list" where
  "cors =
     [(''Access-Control-Allow-Origin'', ''*''),
      (''Access-Control-Allow-Headers'', ''Authorization, Content-Type''),
      (''Access-Control-Allow-Methods'', ''GET, POST, PUT, DELETE, OPTIONS'')]"

text \<open>\<open>res.writeHead(code, hdrs); res.end(b)\<close>.\<close>

definition respond :: "nat \<Rightarrow> (string \<times> string) list \<Rightarrow> body \<Rightarrow> response" where
  "respond code hdrs b = \<lparr>status = code, headers = cors @ hdrs, content = b\<rparr>"

definition html :: "(string \<times> string) list" where
  "html = [(''Content-Type'', ''text/html'')]"

definition json_type :: "(string \<times> string) list" where
  "json_type = [(''Content-Type'', ''application/json'')]"

text \<open>\<open>a ?? b\<close> on values that are a string or \<open>null\<close>/\<open>undefined\<close>, and the
  string held by a value known to be one.\<close>

definition str_of :: "string option \<Rightarrow> string" where
  "str_of v = (case v of None \<Rightarrow> [] | Some x \<Rightarrow> x)"

definition nullish :: "string option \<Rightarrow> string option \<Rightarrow> string option" where
  "nullish a b = (case a of None \<Rightarrow> b | Some x \<Rightarrow> Some x)"

text \<open>The condition of the callback block: the path is \<open>/\<close> and the raw query string
  contains \<open>code=\<close>.\<close>

definition is_callback :: "request \<Rightarrow> bool" where
  "is_callback req =
     (pathname req = ''/'' \<and>
      (case search req of None \<Rightarrow> False | Some q \<Rightarrow> str_includes q ''code=''))"

text \<open>
  The callback block of \<open>handleRequest\<close>.  First the values it reads from the query
  string: \<open>params\<close>, \<open>code\<close>, \<open>state\<close> and \<open>errMsg\<close>.
\<close>

definition cb_params :: "env \<Rightarrow> request \<Rightarrow> searchParams" where
  "cb_params e req =
     URLSearchParams (form_decode e) (case search req of None \<Rightarrow> [] | Some q \<Rightarrow> q)"

definition cb_code :: "env \<Rightarrow> request \<Rightarrow> string option" where
  "cb_code e req = params_get (cb_params e req) ''code''"

definition cb_state :: "env \<Rightarrow> request \<Rightarrow> string option" where
  "cb_state e req = params_get (cb_params e req) ''state''"

definition cb_errMsg :: "env \<Rightarrow> request \<Rightarrow> string option" where
  "cb_errMsg e req =
     nullish (params_get (cb_params e req) ''error_description'') (params_get (cb_params e req) ''error'')"

text \<open>The \<open>try\<close> statement of the callback: the exchange and the page that reports it.
  The handler waits for the exchange; a request is modelled as one step, with the
  outcome of the exchange read from the environment.
  (In the detail of the "Invalid callback" page below, the source's dash is written as a
  hyphen.)\<close>

definition exchange_block :: "env \<Rightarrow> string \<Rightarrow> string \<Rightarrow> server_state \<Rightarrow> outcome" where
  "exchange_block e code verifier s1 =
     (case exchange e code verifier of
        Returned result \<Rightarrow>
          if truthy (access_token result) then
            (let (s2, w) = persistToken (now e) result s1
             in (respond 200 html (Page ''Authorized!'' ''This window will close automatically.'' False),
                 s2, [ExchangeCode code verifier, w]))
          else
            (respond 200 html
               (Page ''Auth failed''
                  (case nullish (error_description result) (error result) of
                     None \<Rightarrow> ''Unknown error'' | Some m \<Rightarrow> m)
                  True),
             s1, [ExchangeCode code verifier])
      | Threw msg \<Rightarrow>
          (respond 200 html (Page ''Token exchange failed'' msg True),
           s1, [ExchangeCode code verifier]))"

definition callback :: "env \<Rightarrow> request \<Rightarrow> server_state \<Rightarrow> outcome" where
  "callback e req s =
     (let code = cb_code e req;
          state = cb_state e req;
          errMsg = cb_errMsg e req
      in if truthy errMsg then
           (respond 200 html (Page ''Authorization failed'' (str_of errMsg) True), s, [])
         else
           (let (verifier, m) =
                  (case state of None \<Rightarrow> (None, pkce s) | Some st \<Rightarrow> pkce_complete st (pkce s));
                s1 = s\<lparr>pkce := m\<rparr>
            in if \<not> (truthy code \<and> truthy verifier) then
                 (respond 400 html
                    (Page ''Invalid callback'' ''Missing code or state - please try again.'' True),
                  s1, [])
               else exchange_block e (str_of code) (str_of verifier) s1))"

text \<open>The \<open>/oauth/start\<close> block.\<close>

definition authUrl :: "config \<Rightarrow> string \<Rightarrow> string \<Rightarrow> string" where
  "authUrl cfg challenge state =
     ''https://'' @ B2C_HOST @ ''/'' @ TENANT_ID @ ''/'' @ POLICY @ ''/oauth2/v2.0/authorize?'' @
     sp_toString
       [(''client_id'', CLIENT_ID),
        (''response_type'', ''code''),
        (''redirect_uri'', REDIRECT_URI cfg),
        (''response_mode'', ''query''),
        (''scope'', join '' '' SCOPES),
        (''code_challenge'', challenge),
        (''code_challenge_method'', ''S256''),
        (''state'', state)]"

definition oauth_start :: "config \<Rightarrow> env \<Rightarrow> server_state \<Rightarrow> outcome" where
  "oauth_start cfg e s =
     (let state = fresh_state e;
          verifier = fresh_verifier e;
          challenge = challenge_of e verifier
      in (respond 302 [(''Location'', authUrl cfg challenge state)] NoBody,
          s\<lparr>pkce := pkce_begin state verifier (pkce s)\<rparr>, []))"

text \<open>The \<open>/api/dev-auth/status\<close> block.\<close>

definition json_of :: "string option \<Rightarrow> json" where
  "json_of v = (case v of None \<Rightarrow> JNull | Some x \<Rightarrow> JStr x)"

definition dev_auth_status :: "env \<Rightarrow> server_state \<Rightarrow> outcome" where
  "dev_auth_status e s =
     (respond 200 json_type
        (JsonBody
           (if tokenValid (now e) s
            then JObj [(''ready'', JBool True), (''token'', json_of (token s))]
            else JObj [(''ready'', JBool False)])),
      s, [])"

text \<open>The \<open>/api/edo\<close> block.  \<open>new URL\<close> may throw; the exception leaves
  \<open>handleRequest\<close>.\<close>

definition forwarded :: "request \<Rightarrow> parsed_url \<Rightarrow> proxy_request" where
  "forwarded req target =
     \<lparr>fwd_secure = (url_protocol target = ''https:''),
      fwd_hostname = url_hostname target,
      fwd_port =
        (if url_port target \<noteq> [] then url_port target
         else if url_protocol target = ''https:'' then ''443'' else ''80''),
      fwd_path = url_pathname target @ url_search target,
      fwd_method = req_method req,
      fwd_headers =
        [(''Authorization'', str_of (nullish (req_headers req ''authorization'') (Some []))),
         (''Content-Type'', ''application/json''),
         (''Accept'', ''application/json'')],
      fwd_body =
        (if req_method req \<noteq> ''GET'' \<and> req_method req \<noteq> ''HEAD'' then Some (req_body req) else None)\<rparr>"

definition proxy_target :: "config \<Rightarrow> request \<Rightarrow> string" where
  "proxy_target cfg req =
     (let rest = drop (length ''/api/edo'') (pathname req);
          forwardPath = (if rest = [] then ''/'' else rest)
      in EDO_API_BASE cfg @ forwardPath @ (case search req of None \<Rightarrow> [] | Some q \<Rightarrow> q))"

definition proxy :: "config \<Rightarrow> env \<Rightarrow> request \<Rightarrow> server_state \<Rightarrow> js_error + outcome" where
  "proxy cfg e req s =
     (case new_URL e (proxy_target cfg req) of
           None \<Rightarrow> Inl TypeError
         | Some target \<Rightarrow>
             (let proxyReq = forwarded req target
              in case upstream e proxyReq of
                   UpstreamResponse code hdrs data \<Rightarrow>
                     Inr (respond code
                            [(''Content-Type'',
                              (case hdrs ''content-type'' of None \<Rightarrow> ''application/json'' | Some t \<Rightarrow> t))]
                            (Piped data),
                          s, [Forward proxyReq])
                 | UpstreamError msg \<Rightarrow>
                     Inr (respond 502 json_type
                            (JsonBody (JObj [(''error'', JStr ''Proxy error''), (''detail'', JStr msg)])),
                          s, [Forward proxyReq])))"

text \<open>The static file block.\<close>

definition filePath :: "config \<Rightarrow> request \<Rightarrow> string" where
  "filePath cfg req =
     path_join (dirname cfg) (if pathname req = ''/'' then ''index.html'' else pathname req)"

definition static :: "config \<Rightarrow> env \<Rightarrow> request \<Rightarrow> server_state \<Rightarrow> outcome" where
  "static cfg e req s =
     (let fp = filePath cfg req
      in if \<not> startsWith fp (dirname cfg @ ''/'') \<and> fp \<noteq> dirname cfg then
           (respond 403 [] (Text ''Forbidden''), s, [])
         else
           (case readFile e fp of
              Inl err \<Rightarrow>
                (respond (if err = ENOENT then 404 else 500) []
                   (Text (if err = ENOENT then ''Not found'' else ''Server error'')),
                 s, [ReadFile fp])
            | Inr data \<Rightarrow>
                (respond 200
                   [(''Content-Type'',
                     (case MIME (path_extname fp) of None \<Rightarrow> ''application/octet-stream'' | Some t \<Rightarrow> t))]
                   (FileData data),
                 s, [ReadFile fp])))"

definition handleRequest :: "config \<Rightarrow> env \<Rightarrow> request \<Rightarrow> server_state \<Rightarrow> js_error + outcome" where
  "handleRequest cfg e req s =
     (if req_method req = ''OPTIONS'' then Inr (respond 204 [] NoBody, s, [])
      else if is_callback req then Inr (callback e req s)
      else if pathname req = ''/oauth/start'' then Inr (oauth_start cfg e s)
      else if pathname req = ''/api/dev-auth/status'' then Inr (dev_auth_status e s)
      else if startsWith (pathname req) ''/api/edo'' then proxy cfg e req s
      else Inr (static cfg e req s))"

text \<open>The server's listener: an exception of \<open>handleRequest\<close> becomes a 500.\<close>

definition server :: "config \<Rightarrow> env \<Rightarrow> request \<Rightarrow> server_state \<Rightarrow> outcome" where
  "server cfg e req s =
     (case handleRequest cfg e req s of
        Inl err \<Rightarrow> (respond 500 [] (Text ''Internal server error''), s, [])
      | Inr out \<Rightarrow> out)"

text \<open>The states the process can be in: the state after startup, and the state after
  any request from such a state.\<close>

inductive reachable :: "config \<Rightarrow> server_state \<Rightarrow> bool" for cfg :: config where
  start: "reachable cfg (restore t c)"
| step: "reachable cfg s \<Longrightarrow> reachable cfg (fst (snd (server cfg e req s)))"

section \<open>The browser SDK (\<open>edo.js\<close>)\<close>

subsection \<open>Query parameters of \<open>get\<close>\<close>







subsection \<open>Manual token paste\<close>

text \<open>
  White space as \<open>trim\<close> and the regular expression class \<open>\s\<close> know it, among the
  code units below 256: tab, line feed, vertical tab, form feed, carriage return, space
  and no-break space.
\<close>

definition is_ws :: "char \<Rightarrow> bool" where
  "is_ws c = ((of_char c :: nat) \<in> {9, 10, 11, 12, 13, 32, 160})"

definition trim :: "string \<Rightarrow> string" where
  "trim s = rev (dropWhile is_ws (rev (dropWhile is_ws s)))"

text \<open>\<open>raw.replace(/^Bearer\s+/i, '')\<close>: the six letters in either case, then a
  longest non-empty run of white space, are removed from the start.\<close>

definition matches_Bearer :: "string \<Rightarrow> bool" where
  "matches_Bearer s =
     list_all2 (\<lambda>c (u, l). c = u \<or> c = l) s
       [(CHR ''B'', CHR ''b''), (CHR ''E'', CHR ''e''), (CHR ''A'', CHR ''a''),
        (CHR ''R'', CHR ''r''), (CHR ''E'', CHR ''e''), (CHR ''R'', CHR ''r'')]"

definition strip_Bearer :: "string \<Rightarrow> string" where
  "strip_Bearer raw =
     (if matches_Bearer (take 6 raw) \<and> (case drop 6 raw of [] \<Rightarrow> False | c # _ \<Rightarrow> is_ws c)
      then dropWhile is_ws (drop 6 raw) else raw)"

text \<open>
  The part of the page's state that the overlay touches: \<open>_token\<close>, \<open>_proxyBase\<close>, the
  session storage, whether the overlay element is in the document, whether the polling
  interval is set, and whether the readiness promise is resolved.
\<close>

record sdk_state =
  sdk_token :: "string option"
  proxyBase :: "string option"
  sessionStorage :: "string \<rightharpoonup> string"
  overlay :: bool
  polling :: bool
  resolved :: bool

definition finishConnect :: "string \<Rightarrow> string \<Rightarrow> sdk_state \<Rightarrow> sdk_state" where
  "finishConnect proxyUrl tok st =
     st\<lparr>polling := False,
        sdk_token := Some tok,
        proxyBase := Some proxyUrl,
        sessionStorage := (sessionStorage st)(''EDO_DEV_TOKEN'' \<mapsto> tok, ''EDO_DEV_PROXY'' \<mapsto> proxyUrl),
        overlay := False,
        resolved := True\<rparr>"

definition connectWithToken :: "string \<Rightarrow> string \<Rightarrow> sdk_state \<Rightarrow> sdk_state" where
  "connectWithToken proxyUrl input st =
     (let raw = trim input;
          tok = strip_Bearer raw
      in if tok = [] then st else finishConnect proxyUrl tok st)"

section \<open>Notions used in the properties\<close>

text \<open>Which block of \<open>handleRequest\<close> answers a request: its chain of conditions.\<close>

datatype route = Preflight | Callback | OAuthStart | Status | Proxy | Static

definition route_of :: "request \<Rightarrow> route" where
  "route_of req =
     (if req_method req = ''OPTIONS'' then Preflight
      else if is_callback req then Callback
      else if pathname req = ''/oauth/start'' then OAuthStart
      else if pathname req = ''/api/dev-auth/status'' then Status
      else if startsWith (pathname req) ''/api/edo'' then Proxy
      else Static)"

text \<open>The verifier that the callback block finds in the store for the state of a request.\<close>

definition cb_verifier :: "env \<Rightarrow> request \<Rightarrow> server_state \<Rightarrow> string option" where
  "cb_verifier e req s =
     (case cb_state e req of None \<Rightarrow> None | Some st \<Rightarrow> pkce s st)"

text \<open>
  A history of the server: requests, each with the environment it is served in, served
  one after the other.  A request begins a state when it is answered by the
  \<open>/oauth/start\<close> block and the fresh state is that state; it completes a state when it
  is answered by the callback block, carries no provider error message, and its
  \<open>state\<close> parameter is that state: these are the requests for which the handler reaches
  \<open>_pkce.get(state)\<close> and \<open>_pkce.delete(state)\<close>.
\<close>

fun serve :: "config \<Rightarrow> (env \<times> request) list \<Rightarrow> server_state \<Rightarrow> server_state" where
  "serve cfg [] s = s"
| "serve cfg ((e, req) # rest) s = serve cfg rest (fst (snd (server cfg e req s)))"

definition begins_state :: "string \<Rightarrow> env \<times> request \<Rightarrow> bool" where
  "begins_state st x = (case x of (e, req) \<Rightarrow> route_of req = OAuthStart \<and> fresh_state e = st)"

definition completes_state :: "string \<Rightarrow> env \<times> request \<Rightarrow> bool" where
  "completes_state st x =
     (case x of (e, req) \<Rightarrow>
        route_of req = Callback \<and> \<not> truthy (cb_errMsg e req) \<and> cb_state e req = Some st)"

text \<open>The response of the callback to a missing code or an unknown state.\<close>

definition invalid_callback :: response where
  "invalid_callback =
     respond 400 html (Page ''Invalid callback'' ''Missing code or state - please try again.'' True)"

text \<open>A token record that exists and expires more than 60 seconds after the instant \<open>t\<close>.\<close>

definition record_valid :: "int \<Rightarrow> server_state \<Rightarrow> bool" where
  "record_valid t s =
     (token s \<noteq> None \<and> (case tokenExpiry s of None \<Rightarrow> False | Some x \<Rightarrow> t + 60 * 1000 < x))"





text \<open>
  The parameters of an OAuth 2.0 error response (RFC 6749, 4.1.2.1), and the query
  string of a redirect that carries such parameters, form-encoded as a provider sends it.
\<close>

definition oauth_error_params :: "string set" where
  "oauth_error_params = {''error'', ''error_description'', ''error_uri'', ''state''}"

definition error_redirect :: "searchParams \<Rightarrow> string" where
  "error_redirect ps = ''?'' @ sp_toString ps"

text \<open>A configuration, an environment, states and requests to run the server on.\<close>

definition cfg0 :: config where
  "cfg0 =
     \<lparr>EDO_API_BASE = ''https://services-internal.apis.edoenergy.com'',
      REDIRECT_URI = ''http://localhost:3001'',
      dirname = ''/srv/app''\<rparr>"

definition env0 :: env where
  "env0 =
     \<lparr>now = 1000000,
      fresh_state = ''st1'',
      fresh_verifier = ''ver1'',
      challenge_of = (\<lambda>v. ''ch1''),
      form_decode = (\<lambda>x. x),
      exchange = (\<lambda>c v. Returned \<lparr>access_token = Some ''tok'', expires_in = Some 3600,
                                   error_description = None, error = None\<rparr>),
      new_URL = (\<lambda>u.
        if u = ''https://services-internal.apis.edoenergy.com/buildings''
        then Some \<lparr>url_protocol = ''https:'', url_hostname = ''services-internal.apis.edoenergy.com'',
                   url_port = [], url_pathname = ''/buildings'', url_search = []\<rparr>
        else None),
      upstream = (\<lambda>r. UpstreamResponse 200 [''content-type'' \<mapsto> ''text/plain''] ''[]''),
      readFile = (\<lambda>f. if f = ''/srv/app/index.html'' then Inr ''<html></html>'' else Inl ENOENT)\<rparr>"

definition env2 :: env where
  "env2 = env0\<lparr>fresh_state := ''st2'', fresh_verifier := ''ver2''\<rparr>"

definition s_pending :: server_state where
  "s_pending = \<lparr>token = None, tokenExpiry = Some 0, pkce = [''s1'' \<mapsto> ''v1'']\<rparr>"

definition get_request :: "string \<Rightarrow> string option \<Rightarrow> request" where
  "get_request p q =
     \<lparr>req_method = ''GET'', pathname = p, search = q,
      req_headers = [''authorization'' \<mapsto> ''Bearer abc'', ''cookie'' \<mapsto> ''k=v''], req_body = []\<rparr>"

definition st0 :: sdk_state where
  "st0 =
     \<lparr>sdk_token = None, proxyBase = None, sessionStorage = Map.empty,
      overlay = True, polling = False, resolved = False\<rparr>"

definition s_cached :: server_state where
  "s_cached = restore 1000000 (Some \<lparr>cached_token = Some ''tok'', expires_on = Some 2800\<rparr>)"

definition u0 :: parsed_url where
  "u0 = \<lparr>url_protocol = ''https:'', url_hostname = ''services-internal.apis.edoenergy.com'',
          url_port = [], url_pathname = ''/buildings'', url_search = []\<rparr>"

text \<open>A plain path component: not empty, not \<open>.\<close> or \<open>..\<close>, and without a slash.\<close>

definition plain :: "string \<Rightarrow> bool" where
  "plain x = (x \<noteq> [] \<and> x \<noteq> ''.'' \<and> x \<noteq> ''..'' \<and> CHR ''/'' \<notin> set x)"

text \<open>A response body that is a page of the callback.\<close>

fun is_page :: "body \<Rightarrow> bool" where
  "is_page (Page heading detail isError) = True"
| "is_page b = False"

text \<open>
  URLs.  The characters that end the authority of a URL; the scheme and authority of a
  URL string, when it has the form \<open>scheme://authority\<close> followed by nothing or by one
  of these characters; a string without spaces and control characters (which a URL
  parser would drop before reading it).  \<open>host_by_authority\<close> is the property of a URL
  parser, as the URL standard describes it, that the host it reports is determined by
  the scheme and the authority.
\<close>

definition url_delimiter :: "char \<Rightarrow> bool" where
  "url_delimiter c = (c = CHR ''/'' \<or> c = CHR ''?'' \<or> c = CHR ''#'' \<or> c = CHR 0x5C)"

definition authority_prefix :: "string \<Rightarrow> string option" where
  "authority_prefix u =
     (let scheme = takeWhile (\<lambda>c. c \<noteq> CHR '':'') u;
          rest = drop (length scheme) u;
          auth = takeWhile (\<lambda>c. \<not> url_delimiter c) (drop 3 rest)
      in if take 3 rest = ''://'' \<and> auth \<noteq> [] then Some (scheme @ ''://'' @ auth) else None)"






section \<open>Token cache and the status endpoint\<close>

lemma restore_token: "token (restore t c) \<noteq> Some []"
  by (auto simp: restore_def initial_state_def truthy_def split: option.splits)

lemma exchange_block_token:
  "token s \<noteq> Some [] \<Longrightarrow> token (fst (snd (exchange_block e c v s))) \<noteq> Some []"
  by (simp add: exchange_block_def persistToken_def truthy_def Let_def
      split: exchange_outcome.split option.split)

lemma callback_token:
  "token s \<noteq> Some [] \<Longrightarrow> token (fst (snd (callback e req s))) \<noteq> Some []"
  by (simp add: callback_def Let_def exchange_block_token split: option.split prod.split)

lemma oauth_start_token: "token (fst (snd (oauth_start cfg e s))) = token s"
  by (simp add: oauth_start_def Let_def)

lemma dev_auth_status_state: "fst (snd (dev_auth_status e s)) = s"
  by (simp add: dev_auth_status_def)

lemma proxy_state: "proxy cfg e req s = Inr out \<Longrightarrow> fst (snd out) = s"
  by (auto simp: proxy_def Let_def split: option.splits upstream_outcome.splits)

lemma static_state: "fst (snd (static cfg e req s)) = s"
  by (simp add: static_def Let_def split: sum.splits)

lemma server_token:
  assumes "token s \<noteq> Some []"
  shows "token (fst (snd (server cfg e req s))) \<noteq> Some []"
proof (cases "handleRequest cfg e req s")
  case (Inl err)
  then show ?thesis using assms by (simp add: server_def)
next
  case (Inr out)
  then have out: "server cfg e req s = out" by (simp add: server_def)
  from Inr have "token (fst (snd out)) \<noteq> Some []"
    using assms callback_token [of s e req] proxy_state [of cfg e req s out]
    by (auto simp: handleRequest_def oauth_start_token dev_auth_status_state static_state
        split: if_splits)
  with out show ?thesis by simp
qed

lemma reachable_token: "reachable cfg s \<Longrightarrow> token s \<noteq> Some []"
  by (induction rule: reachable.induct) (simp_all add: restore_token server_token)

lemma server_status:
  "req_method req \<noteq> ''OPTIONS'' \<Longrightarrow> pathname req = ''/api/dev-auth/status'' \<Longrightarrow>
   server cfg e req s = dev_auth_status e s"
  by (simp add: server_def handleRequest_def is_callback_def)

lemma tokenValid_record_valid:
  "token s \<noteq> Some [] \<Longrightarrow> tokenValid t s = record_valid t s"
  by (cases "token s") (auto simp: tokenValid_def record_valid_def truthy_def split: option.splits)

text \<open>
  C2.  From every state the process can reach, the status endpoint answers 200 with
  \<open>{ready: true, token}\<close>, the token being the record's, exactly when a token record
  exists whose expiry is more than 60 seconds after the current time, and with
  \<open>{ready: false}\<close> otherwise; a record whose expiry is at most 60 seconds ahead is
  answered \<open>{ready: false}\<close>.
\<close>

theorem status_ready_iff:
  assumes "reachable cfg s"
    and "req_method req \<noteq> ''OPTIONS''"
    and "pathname req = ''/api/dev-auth/status''"
  shows "server cfg e req s =
           (respond 200 json_type
              (JsonBody
                 (if record_valid (now e) s
                  then JObj [(''ready'', JBool True), (''token'', JStr (str_of (token s)))]
                  else JObj [(''ready'', JBool False)])),
            s, [])
         \<and> (\<forall>x. tokenExpiry s = Some x \<and> x \<le> now e + 60 * 1000 \<longrightarrow>
              content (fst (server cfg e req s)) = JsonBody (JObj [(''ready'', JBool False)]))"
proof -
  have tok: "token s \<noteq> Some []" using assms(1) by (rule reachable_token)
  have valid: "tokenValid (now e) s = record_valid (now e) s"
    using tok by (rule tokenValid_record_valid)
  have js: "record_valid (now e) s \<Longrightarrow> json_of (token s) = JStr (str_of (token s))"
    by (cases "token s") (simp_all add: record_valid_def json_of_def str_of_def)
  have eq: "server cfg e req s =
           (respond 200 json_type
              (JsonBody
                 (if record_valid (now e) s
                  then JObj [(''ready'', JBool True), (''token'', JStr (str_of (token s)))]
                  else JObj [(''ready'', JBool False)])),
            s, [])"
    using assms(2,3) valid js by (simp add: server_status dev_auth_status_def)
  have "\<And>x. tokenExpiry s = Some x \<Longrightarrow> x \<le> now e + 60 * 1000 \<Longrightarrow> \<not> record_valid (now e) s"
    by (simp add: record_valid_def)
  with eq show ?thesis by (auto simp: respond_def)
qed


theorem status_ready_iff_witness:
  "server cfg0 env0 (get_request ''/api/dev-auth/status'' None) s_cached =
     (respond 200 json_type (JsonBody (JObj [(''ready'', JBool True), (''token'', JStr ''tok'')])),
      s_cached, [])
   \<and> server cfg0 env0 (get_request ''/api/dev-auth/status'' None) (restore 1000000 None) =
     (respond 200 json_type (JsonBody (JObj [(''ready'', JBool False)])), restore 1000000 None, [])"
proof -
  have r1: "reachable cfg0 s_cached" unfolding s_cached_def by (rule reachable.start)
  have r2: "reachable cfg0 (restore 1000000 None)" by (rule reachable.start)
  have m: "req_method (get_request ''/api/dev-auth/status'' None) \<noteq> ''OPTIONS''"
    and p: "pathname (get_request ''/api/dev-auth/status'' None) = ''/api/dev-auth/status''"
    by (simp_all add: get_request_def)
  have v1: "record_valid (now env0) s_cached" "str_of (token s_cached) = ''tok''"
    by (simp_all add: record_valid_def s_cached_def restore_def initial_state_def truthy_def env0_def str_of_def)
  have v2: "\<not> record_valid (now env0) (restore 1000000 None)"
    by (simp add: record_valid_def restore_def initial_state_def)
  show ?thesis
    using status_ready_iff [OF r1 m p, of env0] status_ready_iff [OF r2 m p, of env0] v1 v2
    by simp
qed

section \<open>Reverse proxy\<close>

lemma route_proxy:
  "req_method req \<noteq> ''OPTIONS'' \<Longrightarrow> startsWith (pathname req) ''/api/edo'' \<Longrightarrow>
   route_of req = Proxy"
  by (auto simp: route_of_def is_callback_def startsWith_def)

lemma handleRequest_route:
  "handleRequest cfg e req s =
     (case route_of req of
        Preflight \<Rightarrow> Inr (respond 204 [] NoBody, s, [])
      | Callback \<Rightarrow> Inr (callback e req s)
      | OAuthStart \<Rightarrow> Inr (oauth_start cfg e s)
      | Status \<Rightarrow> Inr (dev_auth_status e s)
      | Proxy \<Rightarrow> proxy cfg e req s
      | Static \<Rightarrow> Inr (static cfg e req s))"
  by (simp add: handleRequest_def route_of_def)

lemma server_proxy:
  assumes "route_of req = Proxy" and "new_URL e (proxy_target cfg req) = Some u"
  shows "server cfg e req s =
     (case upstream e (forwarded req u) of
        UpstreamResponse code hdrs data \<Rightarrow>
          (respond code
             [(''Content-Type'', (case hdrs ''content-type'' of None \<Rightarrow> ''application/json'' | Some t \<Rightarrow> t))]
             (Piped data),
           s, [Forward (forwarded req u)])
      | UpstreamError msg \<Rightarrow>
          (respond 502 json_type
             (JsonBody (JObj [(''error'', JStr ''Proxy error''), (''detail'', JStr msg)])),
           s, [Forward (forwarded req u)]))"
  using assms
  by (simp add: server_def handleRequest_route proxy_def Let_def split: upstream_outcome.splits)

lemma forwarded_headers:
  "fwd_headers (forwarded req u) =
     [(''Authorization'', (case req_headers req ''authorization'' of None \<Rightarrow> [] | Some a \<Rightarrow> a)),
      (''Content-Type'', ''application/json''),
      (''Accept'', ''application/json'')]"
  by (simp add: forwarded_def nullish_def str_of_def split: option.splits)

lemma takeWhile_append_delim:
  assumes "p \<noteq> []" and "\<not> P (hd p)"
  shows "takeWhile P (r @ p) = takeWhile P r"
proof (cases "\<forall>x \<in> set r. P x")
  case True
  have 1: "takeWhile P r = r" using True by (simp add: takeWhile_eq_all_conv)
  have 2: "takeWhile P p = []" using assms by (cases p) simp_all
  have "takeWhile P (r @ p) = r @ takeWhile P p" using True by (intro takeWhile_append2) simp
  then show ?thesis unfolding 1 2 by simp
next
  case False
  then obtain x where "x \<in> set r" "\<not> P x" by blast
  then show ?thesis by (simp add: takeWhile_append1)
qed

lemma authority_prefix_append:
  assumes "authority_prefix b = Some x" and "p \<noteq> []" and "url_delimiter (hd p)"
  shows "authority_prefix (b @ p) = Some x"
proof -
  define scheme where "scheme = takeWhile (\<lambda>c. c \<noteq> CHR '':'') b"
  define rest where "rest = drop (length scheme) b"
  have t3: "take 3 rest = ''://''"
    using assms(1) by (simp add: authority_prefix_def Let_def scheme_def rest_def split: if_splits)
  then have len: "3 \<le> length rest" by (metis length_take min.cobounded1 length_Cons list.size(3) numeral_3_eq_3)
  have "rest \<noteq> []" using len by auto
  then have "hd rest = CHR '':''" using t3 by (cases rest) simp_all
  then have colon: "CHR '':'' \<in> set b"
    using \<open>rest \<noteq> []\<close> unfolding rest_def by (metis hd_in_set in_set_dropD)
  have s: "takeWhile (\<lambda>c. c \<noteq> CHR '':'') (b @ p) = scheme"
    unfolding scheme_def using colon by (simp add: takeWhile_append1)
  have ls: "length scheme \<le> length b" unfolding scheme_def by (rule length_takeWhile_le)
  have r: "drop (length scheme) (b @ p) = rest @ p"
    using ls by (simp add: rest_def)
  have t: "take 3 (rest @ p) = ''://''" using t3 len by simp
  have d: "drop 3 (rest @ p) = drop 3 rest @ p" using len by simp
  have a: "takeWhile (\<lambda>c. \<not> url_delimiter c) (drop 3 rest @ p) =
      takeWhile (\<lambda>c. \<not> url_delimiter c) (drop 3 rest)"
    using assms(2,3) by (intro takeWhile_append_delim) simp_all
  have "authority_prefix (b @ p) = authority_prefix b"
    unfolding authority_prefix_def Let_def s r t d a
    by (simp add: scheme_def [symmetric] rest_def [symmetric] t3)
  with assms(1) show ?thesis by simp
qed












text \<open>
  A path that only starts with the letters of the prefix is glued to the base without a
  slash, and the authority of the target is then not the authority of the base.
\<close>

lemma prefix_glue:
  "proxy_target cfg0 (get_request ''/api/edo@evil.test/x'' None)
     = ''https://services-internal.apis.edoenergy.com@evil.test/x''
   \<and> authority_prefix (proxy_target cfg0 (get_request ''/api/edo@evil.test/x'' None))
     = Some ''https://services-internal.apis.edoenergy.com@evil.test''"
proof -
  have a: "authority_prefix ''https://services-internal.apis.edoenergy.com@evil.test'' =
     Some ''https://services-internal.apis.edoenergy.com@evil.test''"
    by (simp add: authority_prefix_def Let_def url_delimiter_def)
  have t: "proxy_target cfg0 (get_request ''/api/edo@evil.test/x'' None)
     = ''https://services-internal.apis.edoenergy.com@evil.test/x''"
    by (simp add: proxy_target_def cfg0_def get_request_def)
  show ?thesis
    unfolding t using authority_prefix_append [OF a, of "''/x''"] by (simp add: url_delimiter_def)
qed


lemma target0: "new_URL env0 (proxy_target cfg0 (get_request ''/api/edo/buildings'' None)) = Some u0"
  by (simp add: proxy_target_def cfg0_def env0_def get_request_def u0_def)


lemma exchange_block_no_forward: "Forward f \<notin> set (snd (snd (exchange_block e c v s)))"
  by (simp add: exchange_block_def persistToken_def Let_def split: exchange_outcome.split)

lemma callback_no_forward: "Forward f \<notin> set (snd (snd (callback e req s)))"
  by (simp add: callback_def Let_def exchange_block_no_forward split: option.split prod.split)

lemma proxy_forward:
  "proxy cfg e req s = Inr out \<Longrightarrow> Forward f \<in> set (snd (snd out)) \<Longrightarrow> \<exists>u. f = forwarded req u"
  by (auto simp: proxy_def Let_def split: option.splits upstream_outcome.splits)

lemma static_no_forward: "Forward f \<notin> set (snd (snd (static cfg e req s)))"
  by (auto simp: static_def Let_def split: sum.splits)

lemma server_forward:
  assumes "Forward f \<in> set (snd (snd (server cfg e req s)))"
  shows "\<exists>u. f = forwarded req u"
proof (cases "handleRequest cfg e req s")
  case (Inl err)
  then show ?thesis using assms by (simp add: server_def)
next
  case (Inr out)
  then have out: "server cfg e req s = out" by (simp add: server_def)
  show ?thesis
  proof (cases "route_of req")
    case Proxy
    with Inr have "proxy cfg e req s = Inr out" by (simp add: handleRequest_route)
    then show ?thesis using assms out by (auto dest: proxy_forward)
  qed (use Inr assms out callback_no_forward [of f e req s] static_no_forward [of f cfg e req s] in
      \<open>auto simp: handleRequest_route oauth_start_def dev_auth_status_def Let_def\<close>)
qed

text \<open>
  C10.  Whatever request the server sends upstream, for whatever incoming request, its
  headers are exactly three: \<open>Authorization\<close> with the caller's value (the empty string
  when the caller sent none), \<open>Content-Type\<close> and \<open>Accept\<close>, both
  \<open>application/json\<close>.  No other header of the caller is among them.
\<close>

theorem proxy_headers:
  "Forward f \<in> set (snd (snd (server cfg e req s))) \<longrightarrow>
     fwd_headers f =
       [(''Authorization'', (case req_headers req ''authorization'' of None \<Rightarrow> [] | Some a \<Rightarrow> a)),
        (''Content-Type'', ''application/json''),
        (''Accept'', ''application/json'')]"
  using server_forward [of f cfg e req s] by (auto simp: forwarded_headers)

theorem proxy_headers_witness:
  "Forward (forwarded (get_request ''/api/edo/buildings'' None) u0)
     \<in> set (snd (snd (server cfg0 env0 (get_request ''/api/edo/buildings'' None) s_pending)))
   \<and> req_headers (get_request ''/api/edo/buildings'' None) ''cookie'' = Some ''k=v''
   \<and> fwd_headers (forwarded (get_request ''/api/edo/buildings'' None) u0) =
       [(''Authorization'', ''Bearer abc''),
        (''Content-Type'', ''application/json''),
        (''Accept'', ''application/json'')]"
proof -
  have m: "route_of (get_request ''/api/edo/buildings'' None) = Proxy"
    by (simp add: route_of_def is_callback_def get_request_def startsWith_def)
  have fw: "Forward (forwarded (get_request ''/api/edo/buildings'' None) u0)
     \<in> set (snd (snd (server cfg0 env0 (get_request ''/api/edo/buildings'' None) s_pending)))"
    by (simp add: server_proxy [OF m target0] split: upstream_outcome.splits)
  have a: "req_headers (get_request ''/api/edo/buildings'' None) ''authorization'' = Some ''Bearer abc''"
    "req_headers (get_request ''/api/edo/buildings'' None) ''cookie'' = Some ''k=v''"
    by (simp_all add: get_request_def)
  show ?thesis
    using proxy_headers [of "forwarded (get_request ''/api/edo/buildings'' None) u0" cfg0 env0
        "get_request ''/api/edo/buildings'' None" s_pending] fw a
    by simp
qed

section \<open>OAuth callback\<close>

lemma server_callback:
  "route_of req = Callback \<Longrightarrow> server cfg e req s = callback e req s"
  by (simp add: server_def handleRequest_route)

lemma route_callback:
  "route_of req = Callback \<longleftrightarrow> req_method req \<noteq> ''OPTIONS'' \<and> is_callback req"
  by (simp add: route_of_def)

lemma exchange_block_status: "status (fst (exchange_block e c v s)) = 200"
  by (simp add: exchange_block_def persistToken_def Let_def respond_def
      split: exchange_outcome.split)

lemma exchange_block_page:
  "content (fst (exchange_block e c v s)) \<noteq>
     Page ''Invalid callback'' ''Missing code or state - please try again.'' True"
  by (simp add: exchange_block_def persistToken_def Let_def respond_def
      split: exchange_outcome.split)

lemma callback_status:
  "status (fst (callback e req s)) =
     (if \<not> truthy (cb_errMsg e req) \<and> \<not> (truthy (cb_code e req) \<and> truthy (cb_verifier e req s))
      then 400 else 200)"
  by (simp add: callback_def cb_verifier_def Let_def respond_def pkce_complete_def
      exchange_block_status split: option.split)

lemma callback_invalid_page:
  "status (fst (callback e req s)) = 400 \<longleftrightarrow>
   content (fst (callback e req s)) =
     Page ''Invalid callback'' ''Missing code or state - please try again.'' True"
  by (simp add: callback_def Let_def respond_def pkce_complete_def
      exchange_block_status exchange_block_page split: option.split prod.split)

text \<open>
  C4 (amended).  A response of the OAuth callback route carries status 200, except the
  "Invalid callback" page, which carries status 400; that page is the answer exactly when
  the query holds no provider error message and the code is missing or empty, or the
  state is missing or has no non-empty verifier in the store.
\<close>

theorem callback_status_200_or_400:
  assumes "req_method req \<noteq> ''OPTIONS''" and "is_callback req"
  shows "status (fst (server cfg e req s)) =
     (if \<not> truthy (cb_errMsg e req) \<and> \<not> (truthy (cb_code e req) \<and> truthy (cb_verifier e req s))
      then 400 else 200)
   \<and> (status (fst (server cfg e req s)) = 400 \<longleftrightarrow>
      content (fst (server cfg e req s)) =
        Page ''Invalid callback'' ''Missing code or state - please try again.'' True)"
proof -
  have "route_of req = Callback" using assms by (simp add: route_callback)
  then have "server cfg e req s = callback e req s" by (rule server_callback)
  then show ?thesis using callback_status [of e req s] callback_invalid_page [of e req s] by simp
qed

lemma inc1: "str_includes ''?code=abc&state=nope'' ''code=''"
  by (simp add: str_includes_def sublist_Cons_right)

text \<open>A callback with a code and a state that was never begun is answered with status 400.\<close>

theorem callback_unknown_state_400:
  "status (fst (server cfg0 env0 (get_request ''/'' (Some ''?code=abc&state=nope'')) s_pending)) = 400"
  by (simp add: server_def handleRequest_def is_callback_def get_request_def inc1 callback_def
      cb_code_def cb_state_def cb_errMsg_def cb_params_def
      URLSearchParams_def parse_pair_def params_get_def nullish_def truthy_def env0_def s_pending_def
      pkce_complete_def respond_def)


lemma inc2: "str_includes ''?code=abc&state=s1'' ''code=''"
  by (simp add: str_includes_def sublist_Cons_right)

theorem callback_status_200_or_400_witness:
  "status (fst (server cfg0 env0 (get_request ''/'' (Some ''?code=abc&state=s1'')) s_pending)) = 200
   \<and> content (fst (server cfg0 env0 (get_request ''/'' (Some ''?code=abc&state=s1'')) s_pending))
     \<noteq> Page ''Invalid callback'' ''Missing code or state - please try again.'' True"
proof -
  have m: "req_method (get_request ''/'' (Some ''?code=abc&state=s1'')) \<noteq> ''OPTIONS''"
    by (simp add: get_request_def)
  have c: "is_callback (get_request ''/'' (Some ''?code=abc&state=s1''))"
    by (simp add: is_callback_def get_request_def inc2)
  have v: "truthy (cb_code env0 (get_request ''/'' (Some ''?code=abc&state=s1'')))"
    "truthy (cb_verifier env0 (get_request ''/'' (Some ''?code=abc&state=s1'')) s_pending)"
    by (simp_all add: cb_code_def cb_verifier_def cb_state_def cb_params_def get_request_def env0_def
        URLSearchParams_def parse_pair_def params_get_def truthy_def s_pending_def)
  show ?thesis
    using callback_status_200_or_400 [OF m c, of cfg0 env0 s_pending] v by auto
qed

lemma inc3: "str_includes ''?code=abc&state=s1&error=access_denied'' ''code=''"
  by (simp add: str_includes_def sublist_Cons_right)

lemma inc4: "str_includes ''?code=&state=s1'' ''code=''"
  by (simp add: str_includes_def sublist_Cons_right)

lemma inc5: "\<not> str_includes ''?error=access_denied&state=s1'' ''code=''"
  by (simp add: str_includes_def sublist_Cons_right)

text \<open>
  C5.  A callback for the pending state \<open>s1\<close> that carries a provider error is answered
  with the failure page and no exchange is made, but the store is left as it was: the
  entry of \<open>s1\<close> is still there.  The "Invalid callback" path, for the same state, removes
  it.  An error redirect without \<open>code=\<close> in its query leaves the state as it was, too.
\<close>

theorem error_callback_keeps_entry:
  "server cfg0 env0 (get_request ''/'' (Some ''?code=abc&state=s1&error=access_denied'')) s_pending
     = (respond 200 html (Page ''Authorization failed'' ''access_denied'' True), s_pending, [])
   \<and> pkce s_pending ''s1'' = Some ''v1''
   \<and> pkce (fst (snd (server cfg0 env0 (get_request ''/'' (Some ''?code=&state=s1'')) s_pending))) ''s1''
     = None
   \<and> fst (snd (server cfg0 env0 (get_request ''/'' (Some ''?error=access_denied&state=s1'')) s_pending))
     = s_pending"
  by (simp add: server_def handleRequest_def is_callback_def get_request_def inc3 inc4 inc5 callback_def
      cb_code_def cb_state_def cb_errMsg_def cb_params_def
      URLSearchParams_def parse_pair_def params_get_def nullish_def truthy_def env0_def s_pending_def
      pkce_complete_def str_of_def static_state startsWith_def)

section \<open>Manual token paste\<close>

lemma trim_all_ws:
  assumes "\<forall>c \<in> set v. is_ws c"
  shows "trim v = []"
proof -
  have d: "dropWhile is_ws v = []" using assms by simp
  show ?thesis unfolding trim_def d by simp
qed

lemma trim_not_all_ws:
  assumes "\<not> (\<forall>c \<in> set v. is_ws c)"
  shows "trim v \<noteq> [] \<and> \<not> is_ws (hd (trim v)) \<and> \<not> is_ws (last (trim v))"
proof -
  let ?a = "dropWhile is_ws v"
  have a: "?a \<noteq> []" using assms by simp
  then have ha: "\<not> is_ws (hd ?a)" by (rule hd_dropWhile)
  have ex: "\<exists>c \<in> set (rev ?a). \<not> is_ws c" using a ha by (metis hd_in_set set_rev)
  let ?b = "dropWhile is_ws (rev ?a)"
  have b: "?b \<noteq> []" using ex by simp
  then have hb: "\<not> is_ws (hd ?b)" by (rule hd_dropWhile)
  have t: "trim v = rev ?b" by (simp add: trim_def)
  have l: "last (rev ?b) = hd ?b" using b by (simp add: last_rev)
  obtain n where n: "?b = drop n (rev ?a)" by (metis dropWhile_eq_drop)
  have "rev ?b = take (length ?a - n) ?a" unfolding n by (simp add: rev_drop)
  moreover have "length ?a - n \<noteq> 0" using b n by auto
  ultimately have h: "hd (rev ?b) = hd ?a" by (simp add: hd_take)
  show ?thesis using b ha hb t l h by simp
qed

lemma strip_Bearer_nonempty:
  assumes "raw \<noteq> []" and "\<not> is_ws (last raw)"
  shows "strip_Bearer raw \<noteq> []"
proof (cases "matches_Bearer (take 6 raw) \<and> (case drop 6 raw of [] \<Rightarrow> False | c # _ \<Rightarrow> is_ws c)")
  case True
  then have d: "drop 6 raw \<noteq> []" by (auto split: list.splits)
  then have "last (drop 6 raw) = last raw" by simp
  with assms(2) d have "\<exists>c \<in> set (drop 6 raw). \<not> is_ws c" by (metis last_in_set)
  then have "dropWhile is_ws (drop 6 raw) \<noteq> []" by simp
  with True show ?thesis by (simp add: strip_Bearer_def)
next
  case False
  then show ?thesis using assms(1) by (auto simp: strip_Bearer_def)
qed


lemma dropWhile_keep: "t \<noteq> [] \<Longrightarrow> \<not> P (hd t) \<Longrightarrow> dropWhile P (t @ r) = t @ r"
  by (cases t) simp_all

lemma trim_core:
  assumes "\<forall>c \<in> set l. is_ws c" and "\<forall>c \<in> set r. is_ws c"
    and "t \<noteq> []" and "\<not> is_ws (hd t)" and "\<not> is_ws (last t)"
  shows "trim (l @ t @ r) = t"
proof -
  have "dropWhile is_ws (l @ t @ r) = dropWhile is_ws (t @ r)"
    using assms(1) by (intro dropWhile_append2) simp
  then have 1: "dropWhile is_ws (l @ t @ r) = t @ r"
    using assms(3,4) by (simp add: dropWhile_keep)
  have "dropWhile is_ws (rev r @ rev t) = dropWhile is_ws (rev t)"
    using assms(2) by (intro dropWhile_append2) simp
  also have "\<dots> = rev t"
    using dropWhile_keep [of "rev t" is_ws "[]"] assms(3,5) by (simp add: hd_rev)
  finally have 2: "dropWhile is_ws (rev (t @ r)) = rev t" by simp
  show ?thesis unfolding trim_def 1 2 by simp
qed

lemma matches_Bearer_length: "matches_Bearer b \<Longrightarrow> length b = 6"
  by (auto simp: matches_Bearer_def dest: list_all2_lengthD)

lemma matches_Bearer_hd: "matches_Bearer b \<Longrightarrow> b \<noteq> [] \<and> \<not> is_ws (hd b)"
  by (cases b) (auto simp: matches_Bearer_def is_ws_def)

lemma strip_Bearer_prefix:
  assumes "matches_Bearer b" and "w \<noteq> []" and "\<forall>c \<in> set w. is_ws c"
    and "tok \<noteq> []" and "\<not> is_ws (hd tok)"
  shows "strip_Bearer (b @ w @ tok) = tok"
proof -
  have len: "length b = 6" using assms(1) by (rule matches_Bearer_length)
  have t: "take 6 (b @ w @ tok) = b" and d: "drop 6 (b @ w @ tok) = w @ tok"
    using len by simp_all
  have hw: "is_ws (hd w)" using assms(2,3) by simp
  have c: "(case w @ tok of [] \<Rightarrow> False | c # _ \<Rightarrow> is_ws c)"
    using assms(2) hw by (cases w) simp_all
  have "dropWhile is_ws (w @ tok) = dropWhile is_ws tok"
    using assms(3) by (intro dropWhile_append2) simp
  also have "\<dots> = tok" using dropWhile_keep [of tok is_ws "[]"] assms(4,5) by simp
  finally have "dropWhile is_ws (w @ tok) = tok" .
  then show ?thesis unfolding strip_Bearer_def t d using assms(1) c by simp
qed

text \<open>
  C7.  A pasted value that is all white space is rejected: the state is unchanged, so no
  token is adopted, the overlay stays and readiness is not resolved.  Any other value is
  adopted, with a non-empty token.  A token \<open>tok\<close> that starts and ends with a character
  other than white space is adopted as it is when pasted with white space around it,
  and also when the word \<open>Bearer\<close>, in any mix of cases, and white space come before
  it; adopting a token stores it, removes the overlay and resolves readiness.
\<close>

theorem paste_token:
  "((\<forall>c \<in> set v. is_ws c) \<longrightarrow> connectWithToken p v st = st)
   \<and> (\<not> (\<forall>c \<in> set v. is_ws c) \<longrightarrow>
        strip_Bearer (trim v) \<noteq> [] \<and>
        connectWithToken p v st = finishConnect p (strip_Bearer (trim v)) st)
   \<and> ((\<forall>c \<in> set l. is_ws c) \<and> (\<forall>c \<in> set r. is_ws c) \<and>
        tok \<noteq> [] \<and> \<not> is_ws (hd tok) \<and> \<not> is_ws (last tok) \<longrightarrow>
        (matches_Bearer b \<and> w \<noteq> [] \<and> (\<forall>c \<in> set w. is_ws c) \<longrightarrow>
           connectWithToken p (l @ b @ w @ tok @ r) st = finishConnect p tok st) \<and>
        (\<not> matches_Bearer (take 6 tok) \<or> drop 6 tok = [] \<or> \<not> is_ws (hd (drop 6 tok)) \<longrightarrow>
           connectWithToken p (l @ tok @ r) st = finishConnect p tok st))
   \<and> sdk_token (finishConnect p tok st) = Some tok
   \<and> \<not> overlay (finishConnect p tok st)
   \<and> resolved (finishConnect p tok st)"
proof (intro conjI impI)
  assume "\<forall>c \<in> set v. is_ws c"
  then show "connectWithToken p v st = st"
    by (simp add: connectWithToken_def trim_all_ws strip_Bearer_def)
next
  assume a: "\<not> (\<forall>c \<in> set v. is_ws c)"
  then have "trim v \<noteq> []" "\<not> is_ws (last (trim v))"
    using trim_not_all_ws [of v] by simp_all
  then show n: "strip_Bearer (trim v) \<noteq> []" by (rule strip_Bearer_nonempty)
  then show "connectWithToken p v st = finishConnect p (strip_Bearer (trim v)) st"
    by (simp add: connectWithToken_def Let_def)
next
  assume a: "(\<forall>c \<in> set l. is_ws c) \<and> (\<forall>c \<in> set r. is_ws c) \<and>
        tok \<noteq> [] \<and> \<not> is_ws (hd tok) \<and> \<not> is_ws (last tok)"
    and b: "matches_Bearer b \<and> w \<noteq> [] \<and> (\<forall>c \<in> set w. is_ws c)"
  let ?t = "b @ w @ tok"
  have ne: "?t \<noteq> []" and h: "\<not> is_ws (hd ?t)" and la: "\<not> is_ws (last ?t)"
    using a b matches_Bearer_hd [of b] by simp_all
  have "trim (l @ ?t @ r) = ?t" using a ne h la by (intro trim_core) simp_all
  moreover have "strip_Bearer ?t = tok" using a b by (intro strip_Bearer_prefix) simp_all
  ultimately show "connectWithToken p (l @ b @ w @ tok @ r) st = finishConnect p tok st"
    using a by (simp add: connectWithToken_def Let_def)
next
  assume a: "(\<forall>c \<in> set l. is_ws c) \<and> (\<forall>c \<in> set r. is_ws c) \<and>
        tok \<noteq> [] \<and> \<not> is_ws (hd tok) \<and> \<not> is_ws (last tok)"
    and b: "\<not> matches_Bearer (take 6 tok) \<or> drop 6 tok = [] \<or> \<not> is_ws (hd (drop 6 tok))"
  have "trim (l @ tok @ r) = tok" using a by (intro trim_core) simp_all
  moreover have "strip_Bearer tok = tok"
    using b by (auto simp: strip_Bearer_def split: list.splits)
  ultimately show "connectWithToken p (l @ tok @ r) st = finishConnect p tok st"
    using a by (simp add: connectWithToken_def Let_def)
qed (simp_all add: finishConnect_def)

theorem paste_token_witness:
  "connectWithToken ''http://localhost:3001'' ''  '' st0 = st0
   \<and> connectWithToken ''http://localhost:3001'' ('' '' @ ''bEaReR'' @ ''  '' @ ''eyJ0.x y'' @ ''  '') st0
     = finishConnect ''http://localhost:3001'' ''eyJ0.x y'' st0
   \<and> connectWithToken ''http://localhost:3001'' ('' '' @ ''eyJ0.x y'' @ ''  '') st0
     = finishConnect ''http://localhost:3001'' ''eyJ0.x y'' st0
   \<and> sdk_token (finishConnect ''http://localhost:3001'' ''eyJ0.x y'' st0) = Some ''eyJ0.x y''
   \<and> \<not> overlay (finishConnect ''http://localhost:3001'' ''eyJ0.x y'' st0)"
  using paste_token [where v = "''  ''" and p = "''http://localhost:3001''" and st = st0
      and l = "'' ''" and r = "''  ''" and tok = "''eyJ0.x y''" and b = "''bEaReR''" and w = "''  ''"]
  by (simp add: is_ws_def matches_Bearer_def)

section \<open>Static files: the directory-traversal guard\<close>

lemma split_on_nonempty: "split_on c s \<noteq> []"
  by (induction s) (auto split: list.splits)

lemma split_on_append:
  "split_on c (a @ c # b) = split_on c a @ split_on c b"
proof (induction a)
  case Nil
  then show ?case by simp
next
  case (Cons x a)
  then show ?case
    using split_on_nonempty [of c a] by (auto split: list.splits)
qed

lemma components_append:
  "components (a @ CHR ''/'' # b) = components a @ components b"
  by (simp add: components_def split_on_append)

lemma guard_inside:
  assumes "startsWith fp (d @ ''/'') \<or> fp = d"
  shows "inside d fp"
proof -
  from assms consider rest where "fp = d @ CHR ''/'' # rest" | "fp = d"
    by (auto simp: startsWith_def prefix_def)
  then show ?thesis
    by cases (simp_all add: inside_def components_append)
qed

lemma route_static:
  "route_of req = Static \<Longrightarrow> server cfg e req s = static cfg e req s"
  by (simp add: server_def handleRequest_route)

lemma fp1: "filePath cfg0 (get_request ''/../app-secret/key.pem'' None) = ''/srv/app-secret/key.pem''"
  by (simp add: filePath_def cfg0_def get_request_def path_join_def path_normalize_def
      normalizeString_def norm_step_def)


lemma split_on_no_sep: "p \<in> set (split_on c s) \<Longrightarrow> c \<notin> set p"
proof (induction s arbitrary: p)
  case Nil
  then show ?case by simp
next
  case (Cons x s)
  then show ?case
    by (cases "split_on c s") (auto split: if_splits)
qed

lemma split_on_single: "c \<notin> set p \<Longrightarrow> split_on c p = [p]"
  by (induction p) auto

lemma norm_step_plain:
  "\<forall>x \<in> set acc. plain x \<Longrightarrow> CHR ''/'' \<notin> set seg \<Longrightarrow>
   \<forall>x \<in> set (norm_step False acc seg). plain x"
  by (auto simp: norm_step_def plain_def dest: in_set_butlastD)

lemma foldl_norm_plain:
  "\<forall>x \<in> set acc. plain x \<Longrightarrow> \<forall>seg \<in> set segs. CHR ''/'' \<notin> set seg \<Longrightarrow>
   \<forall>x \<in> set (foldl (norm_step False) acc segs). plain x"
proof (induction segs arbitrary: acc)
  case Nil
  then show ?case by simp
next
  case (Cons seg segs)
  have "\<forall>x \<in> set (norm_step False acc seg). plain x"
    using Cons.prems by (intro norm_step_plain) simp_all
  then show ?case using Cons.prems(2) by (simp add: Cons.IH)
qed

lemma normalizeString_plain: "\<forall>x \<in> set (normalizeString p False). plain x"
  unfolding normalizeString_def
  by (rule foldl_norm_plain) (simp_all add: split_on_no_sep)

lemma components_single: "plain p \<Longrightarrow> components p = [p]"
  by (simp add: components_def split_on_single plain_def)

lemma components_join: "\<forall>x \<in> set segs. plain x \<Longrightarrow> components (join ''/'' segs) = segs"
proof (induction "''/''" segs rule: join.induct)
  case 1
  then show ?case by (simp add: components_def)
next
  case (2 p)
  then show ?case by (simp add: components_single)
next
  case (3 p q ps)
  then show ?case by (simp add: components_append components_single)
qed

lemma components_Nil: "components [] = []"
  by (simp add: components_def)

lemma components_absolute:
  assumes "p \<noteq> []" and "hd p = CHR ''/''"
  shows "components (path_normalize p) = normalizeString p False"
proof -
  let ?segs = "normalizeString p False"
  have pl: "\<forall>x \<in> set ?segs. plain x" by (rule normalizeString_plain)
  have lead: "components (CHR ''/'' # x) = components x" for x
    using components_append [of "[]" x] by (simp add: components_Nil)
  have trail: "components (x @ ''/'') = components x" for x
    using components_append [of x "[]"] by (simp add: components_Nil)
  show ?thesis
  proof (cases "?segs = []")
    case True
    then show ?thesis using assms by (simp add: path_normalize_def Let_def components_def)
  next
    case False
    have "components (CHR ''/'' # join ''/'' ?segs @ t) = ?segs" if "t = [] \<or> t = ''/''" for t
      using that trail [of "CHR ''/'' # join ''/'' ?segs"] lead [of "join ''/'' ?segs"]
        components_join [OF pl] by auto
    then show ?thesis using assms False by (simp add: path_normalize_def Let_def)
  qed
qed

lemma filePath_plain:
  assumes "dirname cfg \<noteq> []" and "hd (dirname cfg) = CHR ''/''"
  shows "\<forall>x \<in> set (components (filePath cfg req)). plain x"
proof -
  let ?b = "if pathname req = ''/'' then ''index.html'' else pathname req"
  obtain j where j: "filePath cfg req = path_normalize j" and "j \<noteq> []" and "hd j = CHR ''/''"
    using assms by (cases "?b = []") (auto simp: filePath_def path_join_def Let_def)
  then show ?thesis using normalizeString_plain by (simp add: components_absolute)
qed


lemma exchange_block_no_read: "ReadFile f \<notin> set (snd (snd (exchange_block e c v s)))"
  by (simp add: exchange_block_def persistToken_def Let_def split: exchange_outcome.split)

lemma callback_no_read: "ReadFile f \<notin> set (snd (snd (callback e req s)))"
  by (simp add: callback_def Let_def exchange_block_no_read split: option.split prod.split)

lemma proxy_no_read:
  "proxy cfg e req s = Inr out \<Longrightarrow> ReadFile f \<notin> set (snd (snd out))"
  by (auto simp: proxy_def Let_def split: option.splits upstream_outcome.splits)

lemma static_read:
  "ReadFile f \<in> set (snd (snd (static cfg e req s))) \<Longrightarrow> inside (dirname cfg) f"
  using guard_inside [of "filePath cfg req" "dirname cfg"]
  by (auto simp: static_def Let_def split: if_splits sum.splits)

lemma server_read:
  assumes "ReadFile f \<in> set (snd (snd (server cfg e req s)))"
  shows "inside (dirname cfg) f"
proof (cases "handleRequest cfg e req s")
  case (Inl err)
  then show ?thesis using assms by (simp add: server_def)
next
  case (Inr out)
  then have out: "server cfg e req s = out" by (simp add: server_def)
  show ?thesis
  proof (cases "route_of req")
    case Proxy
    with Inr have "proxy cfg e req s = Inr out" by (simp add: handleRequest_route)
    then show ?thesis using assms out by (auto dest: proxy_no_read)
  next
    case Static
    with Inr have "out = static cfg e req s" by (simp add: handleRequest_route)
    then show ?thesis using assms out by (auto dest: static_read)
  qed (use Inr assms out callback_no_read [of f e req s] in
      \<open>auto simp: handleRequest_route oauth_start_def dev_auth_status_def Let_def\<close>)
qed

text \<open>
  C8.  A request that falls through to the static file block and whose resolved path
  \<open>filePath\<close> is not inside the server's directory is answered 403 \<open>Forbidden\<close>, without
  reading any file.  Whatever the request, a file that the server reads is inside the
  server's directory.  With an absolute server directory the resolved path is made of
  plain components only (no \<open>..\<close> is left in it), so that being inside the directory, by
  components, is being below it.
\<close>

theorem traversal_forbidden:
  "(route_of req = Static \<and> \<not> inside (dirname cfg) (filePath cfg req) \<longrightarrow>
      server cfg e req s = (respond 403 [] (Text ''Forbidden''), s, []))
   \<and> (ReadFile f \<in> set (snd (snd (server cfg e req s))) \<longrightarrow> inside (dirname cfg) f)
   \<and> (dirname cfg \<noteq> [] \<and> hd (dirname cfg) = CHR ''/'' \<longrightarrow>
      (\<forall>x \<in> set (components (filePath cfg req)). plain x))"
proof (intro conjI impI)
  assume a: "route_of req = Static \<and> \<not> inside (dirname cfg) (filePath cfg req)"
  then have "\<not> (startsWith (filePath cfg req) (dirname cfg @ ''/'') \<or> filePath cfg req = dirname cfg)"
    using guard_inside by blast
  then show "server cfg e req s = (respond 403 [] (Text ''Forbidden''), s, [])"
    using a by (simp add: route_static static_def Let_def)
next
  assume "ReadFile f \<in> set (snd (snd (server cfg e req s)))"
  then show "inside (dirname cfg) f" by (rule server_read)
next
  assume "dirname cfg \<noteq> [] \<and> hd (dirname cfg) = CHR ''/''"
  then show "\<forall>x \<in> set (components (filePath cfg req)). plain x"
    by (intro filePath_plain) simp_all
qed

theorem traversal_forbidden_witness:
  "filePath cfg0 (get_request ''/../app-secret/key.pem'' None) = ''/srv/app-secret/key.pem''
   \<and> server cfg0 env0 (get_request ''/../app-secret/key.pem'' None) s_pending
     = (respond 403 [] (Text ''Forbidden''), s_pending, [])
   \<and> server cfg0 env0 (get_request ''/'' None) s_pending
     = (respond 200 [(''Content-Type'', ''text/html; charset=utf-8'')] (FileData ''<html></html>''),
        s_pending, [ReadFile ''/srv/app/index.html''])
   \<and> inside (dirname cfg0) ''/srv/app/index.html''"
proof -
  let ?bad = "get_request ''/../app-secret/key.pem'' None"
  let ?ok = "get_request ''/'' None"
  have r: "route_of ?bad = Static"
    by (simp add: route_of_def is_callback_def get_request_def startsWith_def)
  have n: "\<not> inside (dirname cfg0) (filePath cfg0 ?bad)"
    by (simp add: fp1) (simp add: inside_def components_def cfg0_def)
  have fp2: "filePath cfg0 ?ok = ''/srv/app/index.html''"
    by (simp add: filePath_def cfg0_def get_request_def path_join_def path_normalize_def
      normalizeString_def norm_step_def)
  have ok: "server cfg0 env0 ?ok s_pending
     = (respond 200 [(''Content-Type'', ''text/html; charset=utf-8'')] (FileData ''<html></html>''),
        s_pending, [ReadFile ''/srv/app/index.html''])"
    unfolding server_def handleRequest_def static_def fp2 Let_def
    by (simp add: is_callback_def get_request_def startsWith_def cfg0_def env0_def
        path_extname_def path_basename_def MIME_def)
  show ?thesis
    using traversal_forbidden [of ?bad cfg0 env0 s_pending "''/srv/app/index.html''"]
      traversal_forbidden [of ?ok cfg0 env0 s_pending "''/srv/app/index.html''"] r n fp1 ok
    by simp
qed

section \<open>Which requests reach the callback\<close>

lemma hex_digit_neq: "hex_digit n \<noteq> CHR ''=''"
proof -
  have "hex_digit n \<in> set ''0123456789ABCDEF''"
    unfolding hex_digit_def by (rule nth_mem) simp
  then show ?thesis by auto
qed

lemma percent_byte_no_eq: "CHR ''='' \<notin> set (percent_byte b)"
  using hex_digit_neq [of b] hex_digit_neq [of "b div 16"]
  by (auto simp: percent_byte_def)

lemma unreserved_eq: "\<not> form_unreserved CHR ''=''"
  by (simp add: form_unreserved_def)

lemma form_encode_char_no_eq: "CHR ''='' \<notin> set (form_encode_char c)"
proof (cases "form_unreserved c")
  case True
  then have "c \<noteq> CHR ''=''" using unreserved_eq by auto
  with True show ?thesis by (simp add: form_encode_char_def)
next
  case False
  then show ?thesis
    by (simp add: form_encode_char_def Let_def percent_byte_no_eq)
qed

lemma form_encode_no_eq: "CHR ''='' \<notin> set (form_encode s)"
  by (simp add: form_encode_def form_encode_char_no_eq)

lemma form_encode_key:
  "k \<in> oauth_error_params \<Longrightarrow> form_encode k = k"
  by (auto simp: oauth_error_params_def form_encode_def form_encode_char_def form_unreserved_def)


lemma eq_split:
  assumes "xs @ ys = a @ c # b" and "c \<notin> set xs"
  shows "\<exists>a'. a = xs @ a' \<and> ys = a' @ c # b"
proof -
  from assms(1) consider us where "xs = a @ us" "us @ ys = c # b"
    | us where "xs @ us = a" "ys = us @ c # b"
    by (auto simp: append_eq_append_conv2)
  then show ?thesis
  proof cases
    case 1
    show ?thesis
    proof (cases us)
      case Nil
      with 1 show ?thesis by simp
    next
      case (Cons u us')
      with 1 have "c \<in> set xs" by simp
      with assms(2) show ?thesis by simp
    qed
  next
    case 2
    then show ?thesis by auto
  qed
qed

lemma piece_split:
  assumes "(k @ CHR ''='' # ev) @ rest = a @ CHR ''='' # b"
    and "CHR ''='' \<notin> set k" and "CHR ''='' \<notin> set ev"
  shows "a = k \<or> (\<exists>a'. a = k @ CHR ''='' # ev @ a' \<and> rest = a' @ CHR ''='' # b)"
proof -
  from assms(1) have "k @ (CHR ''='' # ev @ rest) = a @ CHR ''='' # b" by simp
  from eq_split [OF this assms(2)] obtain a' where
    a: "a = k @ a'" and r: "CHR ''='' # ev @ rest = a' @ CHR ''='' # b" by blast
  show ?thesis
  proof (cases a')
    case Nil
    with a show ?thesis by simp
  next
    case (Cons x a'')
    with r have x: "x = CHR ''=''" and "ev @ rest = a'' @ CHR ''='' # b" by simp_all
    from eq_split [OF this(2) assms(3)] obtain a3 where
      "a'' = ev @ a3" "rest = a3 @ CHR ''='' # b" by blast
    with a Cons x show ?thesis by simp
  qed
qed

lemma key_no_eq: "k \<in> oauth_error_params \<Longrightarrow> CHR ''='' \<notin> set k"
  by (auto simp: oauth_error_params_def)

lemma sp_toString_Cons:
  "sp_toString ((k, v) # ps) =
     (form_encode k @ CHR ''='' # form_encode v) @ (if ps = [] then [] else CHR ''&'' # sp_toString ps)"
  by (cases ps) (simp_all add: sp_toString_def)

lemma eq_after_key:
  assumes "fst ` set ps \<subseteq> oauth_error_params" and "sp_toString ps = a @ CHR ''='' # b"
  shows "\<exists>k \<in> oauth_error_params. suffix k a"
  using assms
proof (induction ps arbitrary: a)
  case Nil
  then show ?case by (simp add: sp_toString_def)
next
  case (Cons p ps)
  obtain k v where p: "p = (k, v)" by (cases p)
  have k: "k \<in> oauth_error_params" using Cons.prems(1) p by simp
  define rest where "rest = (if ps = [] then [] else CHR ''&'' # sp_toString ps)"
  have "sp_toString (p # ps) = (k @ CHR ''='' # form_encode v) @ rest"
    unfolding p sp_toString_Cons rest_def form_encode_key [OF k] ..
  with Cons.prems(2) have "(k @ CHR ''='' # form_encode v) @ rest = a @ CHR ''='' # b"
    by simp
  from piece_split [OF this key_no_eq [OF k] form_encode_no_eq]
  consider "a = k" | a' where "a = k @ CHR ''='' # form_encode v @ a'" "rest = a' @ CHR ''='' # b"
    by blast
  then show ?case
  proof cases
    case 1
    have "suffix k k" by simp
    with k 1 show ?thesis by blast
  next
    case 2
    have ne: "ps \<noteq> []"
    proof
      assume "ps = []"
      then have "rest = []" by (simp add: rest_def)
      with 2(2) show False by simp
    qed
    then have "rest = CHR ''&'' # sp_toString ps" by (simp add: rest_def)
    with 2(2) have eq: "CHR ''&'' # sp_toString ps = a' @ CHR ''='' # b" by simp
    then obtain a'' where a'': "a' = CHR ''&'' # a''"
      by (cases a') simp_all
    with eq have sp: "sp_toString ps = a'' @ CHR ''='' # b" by simp
    have "fst ` set ps \<subseteq> oauth_error_params" using Cons.prems(1) by simp
    from Cons.IH [OF this sp] obtain k' where
      k': "k' \<in> oauth_error_params" "suffix k' a''" by blast
    have "a = (k @ CHR ''='' # form_encode v @ ''&'') @ a''" unfolding 2(1) a'' by simp
    then have "suffix a'' a" by (rule suffixI)
    with k'(2) have "suffix k' a" by (rule suffix_order.trans)
    with k'(1) show ?thesis by blast
  qed
qed

lemma not_suffix_code: "k \<in> oauth_error_params \<Longrightarrow> \<not> suffix k (pre @ ''code'')"
proof
  assume k: "k \<in> oauth_error_params" and "suffix k (pre @ ''code'')"
  then obtain z where "pre @ ''code'' = z @ k" by (auto simp: suffix_def)
  then have "rev (pre @ ''code'') = rev (z @ k)" by simp
  with k show False by (auto simp: oauth_error_params_def)
qed

lemma error_redirect_no_code:
  assumes "fst ` set ps \<subseteq> oauth_error_params"
  shows "\<not> str_includes (error_redirect ps) ''code=''"
proof
  assume "str_includes (error_redirect ps) ''code=''"
  then obtain pre post where e: "CHR ''?'' # sp_toString ps = pre @ ''code='' @ post"
    by (auto simp: str_includes_def sublist_def error_redirect_def)
  then obtain pre' where "pre = CHR ''?'' # pre'" by (cases pre) auto
  with e have "sp_toString ps = (pre' @ ''code'') @ CHR ''='' # post" by simp
  from eq_after_key [OF assms this] not_suffix_code show False by blast
qed


lemma exchange_block_page': "is_page (content (fst (exchange_block e c v s)))"
  by (simp add: exchange_block_def persistToken_def Let_def respond_def split: exchange_outcome.split)

lemma callback_page: "is_page (content (fst (callback e req s)))"
  by (simp add: callback_def Let_def respond_def exchange_block_page' split: option.split prod.split)

lemma static_not_page: "\<not> is_page (content (fst (static cfg e req s)))"
  by (simp add: static_def Let_def respond_def split: sum.split)

lemma proxy_not_page: "proxy cfg e req s = Inr out \<Longrightarrow> \<not> is_page (content (fst out))"
  by (auto simp: proxy_def Let_def respond_def split: option.splits upstream_outcome.splits)

lemma server_page_iff: "is_page (content (fst (server cfg e req s))) \<longleftrightarrow> route_of req = Callback"
proof (cases "route_of req")
  case Callback
  then show ?thesis by (simp add: server_def handleRequest_route callback_page)
next
  case Proxy
  show ?thesis
  proof (cases "proxy cfg e req s")
    case (Inl err)
    with Proxy show ?thesis by (simp add: server_def handleRequest_route respond_def)
  next
    case (Inr out)
    with Proxy proxy_not_page [OF Inr] show ?thesis by (simp add: server_def handleRequest_route)
  qed
next
  case Static
  then show ?thesis by (simp add: server_def handleRequest_route static_not_page)
qed (simp_all add: server_def handleRequest_route respond_def oauth_start_def dev_auth_status_def Let_def)

lemma route_callback_iff:
  "route_of req = Callback \<longleftrightarrow>
     req_method req \<noteq> ''OPTIONS'' \<and> pathname req = ''/'' \<and>
     (\<exists>q. search req = Some q \<and> str_includes q ''code='')"
  by (auto simp: route_of_def is_callback_def split: option.splits)

lemma route_root_static:
  assumes "req_method req \<noteq> ''OPTIONS''" and "pathname req = ''/''" and "\<not> is_callback req"
  shows "route_of req = Static"
  using assms by (simp add: route_of_def startsWith_def)

text \<open>
  C9 (amended).  The server answers with a page of the callback exactly when the request
  is not \<open>OPTIONS\<close>, its path is \<open>/\<close> and its query string contains \<open>code=\<close>, whether
  or not it has a \<open>code\<close> parameter; such a request is answered by the callback block.
  A request to \<open>/\<close> whose query string does not contain \<open>code=\<close> is answered by the
  static file block, for \<open>index.html\<close>, and no page of the callback is rendered; that is
  so for a redirect whose query string is the form-encoding of OAuth error parameters
  only (\<open>error\<close>, \<open>error_description\<close>, \<open>error_uri\<close>, \<open>state\<close>).
\<close>

theorem callback_only_with_code:
  "(is_page (content (fst (server cfg e req s))) \<longleftrightarrow>
      req_method req \<noteq> ''OPTIONS'' \<and> pathname req = ''/'' \<and>
      (\<exists>q. search req = Some q \<and> str_includes q ''code=''))
   \<and> (req_method req \<noteq> ''OPTIONS'' \<and> pathname req = ''/'' \<and>
      (\<exists>q. search req = Some q \<and> str_includes q ''code='') \<longrightarrow>
      server cfg e req s = callback e req s)
   \<and> (req_method req \<noteq> ''OPTIONS'' \<and> pathname req = ''/'' \<and>
      (\<forall>q. search req = Some q \<longrightarrow> \<not> str_includes q ''code='') \<longrightarrow>
      server cfg e req s = static cfg e req s \<and>
      filePath cfg req = path_join (dirname cfg) ''index.html'' \<and>
      \<not> is_page (content (fst (server cfg e req s))))
   \<and> (req_method req \<noteq> ''OPTIONS'' \<and> pathname req = ''/'' \<and>
      search req = Some (error_redirect ps) \<and> fst ` set ps \<subseteq> oauth_error_params \<longrightarrow>
      server cfg e req s = static cfg e req s \<and>
      filePath cfg req = path_join (dirname cfg) ''index.html'' \<and>
      \<not> is_page (content (fst (server cfg e req s))))"
proof -
  have static_case: "server cfg e req s = static cfg e req s \<and>
      filePath cfg req = path_join (dirname cfg) ''index.html'' \<and>
      \<not> is_page (content (fst (server cfg e req s)))"
    if m: "req_method req \<noteq> ''OPTIONS''" and p: "pathname req = ''/''" and n: "\<not> is_callback req"
  proof -
    have r: "route_of req = Static" using m p n by (rule route_root_static)
    then have "server cfg e req s = static cfg e req s" by (simp add: server_def handleRequest_route)
    moreover have "filePath cfg req = path_join (dirname cfg) ''index.html''"
      using p by (simp add: filePath_def)
    moreover have "\<not> is_page (content (fst (server cfg e req s)))"
      using r by (simp add: server_page_iff)
    ultimately show ?thesis by simp
  qed
  have 1: "is_page (content (fst (server cfg e req s))) \<longleftrightarrow>
      req_method req \<noteq> ''OPTIONS'' \<and> pathname req = ''/'' \<and>
      (\<exists>q. search req = Some q \<and> str_includes q ''code='')"
    by (simp only: server_page_iff route_callback_iff)
  have 2: "server cfg e req s = callback e req s"
    if "req_method req \<noteq> ''OPTIONS'' \<and> pathname req = ''/'' \<and>
      (\<exists>q. search req = Some q \<and> str_includes q ''code='')"
  proof -
    have "route_of req = Callback" using that route_callback_iff [of req] by blast
    then show ?thesis by (simp add: server_def handleRequest_route)
  qed
  have 3: "server cfg e req s = static cfg e req s \<and>
      filePath cfg req = path_join (dirname cfg) ''index.html'' \<and>
      \<not> is_page (content (fst (server cfg e req s)))"
    if a: "req_method req \<noteq> ''OPTIONS'' \<and> pathname req = ''/'' \<and>
      (\<forall>q. search req = Some q \<longrightarrow> \<not> str_includes q ''code='')"
  proof -
    have "\<not> is_callback req" using a by (auto simp: is_callback_def split: option.splits)
    with a show ?thesis by (intro static_case) simp_all
  qed
  have 4: "server cfg e req s = static cfg e req s \<and>
      filePath cfg req = path_join (dirname cfg) ''index.html'' \<and>
      \<not> is_page (content (fst (server cfg e req s)))"
    if a: "req_method req \<noteq> ''OPTIONS'' \<and> pathname req = ''/'' \<and>
      search req = Some (error_redirect ps) \<and> fst ` set ps \<subseteq> oauth_error_params"
  proof -
    have "\<not> str_includes (error_redirect ps) ''code=''" using a by (simp add: error_redirect_no_code)
    with a have "\<not> is_callback req" by (simp add: is_callback_def)
    with a show ?thesis by (intro static_case) simp_all
  qed
  from 1 2 3 4 show ?thesis by blast
qed

lemma ser0:
  "error_redirect [(''error'', ''access_denied''), (''error_description'', ''User cancelled''),
                   (''state'', ''s1'')]
   = ''?error=access_denied&error_description=User+cancelled&state=s1''"
  by (simp add: error_redirect_def sp_toString_def form_encode_def form_encode_char_def
      form_unreserved_def)

theorem callback_only_with_code_witness:
  "server cfg0 env0
     (get_request ''/'' (Some ''?error=access_denied&error_description=User+cancelled&state=s1''))
     s_pending
   = (respond 200 [(''Content-Type'', ''text/html; charset=utf-8'')] (FileData ''<html></html>''),
      s_pending, [ReadFile ''/srv/app/index.html''])
   \<and> is_page (content (fst (server cfg0 env0 (get_request ''/'' (Some ''?code=abc&state=s1'')) s_pending)))"
proof -
  let ?err = "get_request ''/''
      (Some ''?error=access_denied&error_description=User+cancelled&state=s1'')"
  let ?ps = "[(''error'', ''access_denied''), (''error_description'', ''User cancelled''),
      (''state'', ''s1'')]"
  let ?cb = "get_request ''/'' (Some ''?code=abc&state=s1'')"
  have h: "req_method ?err \<noteq> ''OPTIONS'' \<and> pathname ?err = ''/'' \<and>
      search ?err = Some (error_redirect ?ps) \<and> fst ` set ?ps \<subseteq> oauth_error_params"
    by (simp add: get_request_def ser0 oauth_error_params_def)
  have fp: "path_join (dirname cfg0) ''index.html'' = ''/srv/app/index.html''"
    by (simp add: cfg0_def path_join_def path_normalize_def normalizeString_def norm_step_def)
  have st: "static cfg0 env0 ?err s_pending
     = (respond 200 [(''Content-Type'', ''text/html; charset=utf-8'')] (FileData ''<html></html>''),
        s_pending, [ReadFile ''/srv/app/index.html''])"
    if "filePath cfg0 ?err = ''/srv/app/index.html''"
    unfolding static_def that Let_def
    by (simp add: startsWith_def cfg0_def env0_def path_extname_def path_basename_def MIME_def)
  have c: "req_method ?cb \<noteq> ''OPTIONS'' \<and> pathname ?cb = ''/'' \<and>
      (\<exists>q. search ?cb = Some q \<and> str_includes q ''code='')"
    by (simp add: get_request_def inc2)
  have "is_page (content (fst (server cfg0 env0 ?cb s_pending)))"
    using callback_only_with_code [of cfg0 env0 ?cb s_pending ?ps] c by blast
  moreover have "server cfg0 env0 ?err s_pending = static cfg0 env0 ?err s_pending"
    and "filePath cfg0 ?err = path_join (dirname cfg0) ''index.html''"
    using callback_only_with_code [of cfg0 env0 ?err s_pending ?ps] h by blast+
  ultimately show ?thesis using fp st by simp
qed

lemma inc7: "str_includes ''?error=access_denied&error_subcode=cancel&state=s1'' ''code=''"
  by (simp add: str_includes_def sublist_Cons_right)

text \<open>
  A redirect that carries error parameters and no \<open>code\<close> parameter, one of them named
  \<open>error_subcode\<close>: its query string contains \<open>code=\<close>, and the callback answers it
  with the failure page.
\<close>

theorem error_subcode_reaches_callback:
  "cb_code env0 (get_request ''/'' (Some ''?error=access_denied&error_subcode=cancel&state=s1'')) = None
   \<and> server cfg0 env0
       (get_request ''/'' (Some ''?error=access_denied&error_subcode=cancel&state=s1'')) s_pending
     = (respond 200 html (Page ''Authorization failed'' ''access_denied'' True), s_pending, [])"
  by (simp add: server_def handleRequest_def is_callback_def get_request_def inc7 callback_def
      cb_code_def cb_state_def cb_errMsg_def cb_params_def
      URLSearchParams_def parse_pair_def params_get_def nullish_def truthy_def env0_def
      str_of_def)

section \<open>PKCE session store: single use\<close>

lemma exchange_block_pkce: "pkce (fst (snd (exchange_block e c v s))) = pkce s"
  by (simp add: exchange_block_def persistToken_def Let_def split: exchange_outcome.split)

lemma exchange_block_effect:
  "hd (snd (snd (exchange_block e c v s))) = ExchangeCode c v"
  by (simp add: exchange_block_def persistToken_def Let_def split: exchange_outcome.split)

lemma callback_pkce:
  "pkce (fst (snd (callback e req s))) =
     (if truthy (cb_errMsg e req) then pkce s
      else case cb_state e req of None \<Rightarrow> pkce s | Some st \<Rightarrow> (pkce s)(st := None))"
  by (simp add: callback_def Let_def pkce_complete_def exchange_block_pkce split: option.split)

lemma server_pkce:
  "pkce (fst (snd (server cfg e req s))) =
     (case route_of req of
        OAuthStart \<Rightarrow> (pkce s)(fresh_state e \<mapsto> fresh_verifier e)
      | Callback \<Rightarrow>
          (if truthy (cb_errMsg e req) then pkce s
           else case cb_state e req of None \<Rightarrow> pkce s | Some st \<Rightarrow> (pkce s)(st := None))
      | _ \<Rightarrow> pkce s)"
proof (cases "route_of req")
  case Proxy
  show ?thesis
  proof (cases "proxy cfg e req s")
    case (Inl err)
    with Proxy show ?thesis by (simp add: server_def handleRequest_route)
  next
    case (Inr out)
    with Proxy proxy_state [OF Inr] show ?thesis by (simp add: server_def handleRequest_route)
  qed
qed (simp_all add: server_def handleRequest_route callback_pkce oauth_start_def pkce_begin_def
    dev_auth_status_def static_state Let_def)

lemma server_untouched:
  "\<not> begins_state st (e, req) \<Longrightarrow> \<not> completes_state st (e, req) \<Longrightarrow>
   pkce (fst (snd (server cfg e req s))) st = pkce s st"
  by (auto simp: server_pkce begins_state_def completes_state_def split: route.splits option.splits)

lemma server_no_begin:
  "\<not> begins_state st (e, req) \<Longrightarrow> pkce s st = None \<Longrightarrow>
   pkce (fst (snd (server cfg e req s))) st = None"
  by (auto simp: server_pkce begins_state_def split: route.splits option.splits)

lemma serve_untouched:
  "\<forall>x \<in> set xs. \<not> begins_state st x \<and> \<not> completes_state st x \<Longrightarrow>
   pkce (serve cfg xs s) st = pkce s st"
proof (induction xs arbitrary: s)
  case Nil
  then show ?case by simp
next
  case (Cons x xs)
  obtain e req where x: "x = (e, req)" by (cases x)
  with Cons show ?case by (simp add: server_untouched)
qed

lemma serve_no_begin:
  "\<forall>x \<in> set xs. \<not> begins_state st x \<Longrightarrow> pkce s st = None \<Longrightarrow> pkce (serve cfg xs s) st = None"
proof (induction xs arbitrary: s)
  case Nil
  then show ?case by simp
next
  case (Cons x xs)
  obtain e req where x: "x = (e, req)" by (cases x)
  with Cons show ?case by (simp add: server_no_begin)
qed

lemma server_completes:
  assumes "completes_state st (e, req)"
  shows "server cfg e req s =
     (if truthy (cb_code e req) \<and> truthy (pkce s st)
      then exchange_block e (str_of (cb_code e req)) (str_of (pkce s st)) (s\<lparr>pkce := (pkce s)(st := None)\<rparr>)
      else (invalid_callback, s\<lparr>pkce := (pkce s)(st := None)\<rparr>, []))"
  using assms
  by (simp add: completes_state_def server_def handleRequest_route callback_def Let_def
      pkce_complete_def invalid_callback_def)

lemma restore_pkce: "pkce (restore t c) st = None"
  by (simp add: restore_def initial_state_def split: option.split)

text \<open>
  C1.  After \<open>/oauth/start\<close> has stored the fresh state with the fresh verifier, and
  whatever requests are served in between that neither begin nor complete that state,
  the first callback that completes the state finds the original verifier: with a code
  it makes the exchange with that verifier, and the entry is removed.  Whatever requests
  follow that do not begin the state again, a second callback for the state finds
  nothing and is answered "Invalid callback", without an exchange.  So is, from startup,
  a callback for a state that no request has begun.
\<close>

theorem pkce_single_use:
  "(route_of r0 = OAuthStart \<and>
    (\<forall>x \<in> set mid. \<not> begins_state (fresh_state e0) x \<and> \<not> completes_state (fresh_state e0) x) \<and>
    completes_state (fresh_state e0) (e1, r1) \<and>
    (\<forall>x \<in> set later. \<not> begins_state (fresh_state e0) x) \<and>
    completes_state (fresh_state e0) (e2, r2) \<longrightarrow>
    (let s1 = serve cfg mid (fst (snd (server cfg e0 r0 s0)));
         s2 = fst (snd (server cfg e1 r1 s1));
         s3 = serve cfg later s2
     in cb_verifier e1 r1 s1 = Some (fresh_verifier e0)
      \<and> (truthy (cb_code e1 r1) \<and> fresh_verifier e0 \<noteq> [] \<longrightarrow>
           server cfg e1 r1 s1 =
             exchange_block e1 (str_of (cb_code e1 r1)) (fresh_verifier e0)
               (s1\<lparr>pkce := (pkce s1)(fresh_state e0 := None)\<rparr>)
         \<and> hd (snd (snd (server cfg e1 r1 s1))) =
             ExchangeCode (str_of (cb_code e1 r1)) (fresh_verifier e0))
      \<and> pkce s2 (fresh_state e0) = None
      \<and> cb_verifier e2 r2 s3 = None
      \<and> server cfg e2 r2 s3 =
          (invalid_callback, s3\<lparr>pkce := (pkce s3)(fresh_state e0 := None)\<rparr>, [])))
   \<and> ((\<forall>x \<in> set reqs. \<not> begins_state st x) \<and> completes_state st (e, r) \<longrightarrow>
        cb_verifier e r (serve cfg reqs (restore t c)) = None \<and>
        server cfg e r (serve cfg reqs (restore t c)) =
          (invalid_callback,
           (serve cfg reqs (restore t c))\<lparr>pkce := (pkce (serve cfg reqs (restore t c)))(st := None)\<rparr>,
           []))"
proof (intro conjI impI)
  assume a: "route_of r0 = OAuthStart \<and>
    (\<forall>x \<in> set mid. \<not> begins_state (fresh_state e0) x \<and> \<not> completes_state (fresh_state e0) x) \<and>
    completes_state (fresh_state e0) (e1, r1) \<and>
    (\<forall>x \<in> set later. \<not> begins_state (fresh_state e0) x) \<and>
    completes_state (fresh_state e0) (e2, r2)"
  define st where "st = fresh_state e0"
  define s1 where "s1 = serve cfg mid (fst (snd (server cfg e0 r0 s0)))"
  define s2 where "s2 = fst (snd (server cfg e1 r1 s1))"
  define s3 where "s3 = serve cfg later s2"
  have c1: "completes_state st (e1, r1)" and c2: "completes_state st (e2, r2)"
    using a by (simp_all add: st_def)
  have "pkce (fst (snd (server cfg e0 r0 s0))) st = Some (fresh_verifier e0)"
    using a by (simp add: server_pkce st_def)
  moreover have "pkce s1 st = pkce (fst (snd (server cfg e0 r0 s0))) st"
    unfolding s1_def using a by (intro serve_untouched) (simp add: st_def)
  ultimately have p1: "pkce s1 st = Some (fresh_verifier e0)" by simp
  have st1: "cb_state e1 r1 = Some st" and st2: "cb_state e2 r2 = Some st"
    using c1 c2 by (simp_all add: completes_state_def)
  have v1: "cb_verifier e1 r1 s1 = Some (fresh_verifier e0)"
    by (simp add: cb_verifier_def st1 p1)
  have x1: "server cfg e1 r1 s1 =
      exchange_block e1 (str_of (cb_code e1 r1)) (fresh_verifier e0) (s1\<lparr>pkce := (pkce s1)(st := None)\<rparr>)"
    if "truthy (cb_code e1 r1) \<and> fresh_verifier e0 \<noteq> []"
    using that by (simp add: server_completes [OF c1] p1 truthy_def str_of_def)
  have p2: "pkce s2 st = None"
    unfolding s2_def using c1 by (simp add: server_pkce completes_state_def)
  have p3: "pkce s3 st = None"
    unfolding s3_def using a p2 by (intro serve_no_begin) (simp_all add: st_def)
  have v2: "cb_verifier e2 r2 s3 = None"
    by (simp add: cb_verifier_def st2 p3)
  have x2: "server cfg e2 r2 s3 = (invalid_callback, s3\<lparr>pkce := (pkce s3)(st := None)\<rparr>, [])"
    by (simp add: server_completes [OF c2] p3 truthy_def)
  show "let s1 = serve cfg mid (fst (snd (server cfg e0 r0 s0)));
         s2 = fst (snd (server cfg e1 r1 s1));
         s3 = serve cfg later s2
     in cb_verifier e1 r1 s1 = Some (fresh_verifier e0)
      \<and> (truthy (cb_code e1 r1) \<and> fresh_verifier e0 \<noteq> [] \<longrightarrow>
           server cfg e1 r1 s1 =
             exchange_block e1 (str_of (cb_code e1 r1)) (fresh_verifier e0)
               (s1\<lparr>pkce := (pkce s1)(fresh_state e0 := None)\<rparr>)
         \<and> hd (snd (snd (server cfg e1 r1 s1))) =
             ExchangeCode (str_of (cb_code e1 r1)) (fresh_verifier e0))
      \<and> pkce s2 (fresh_state e0) = None
      \<and> cb_verifier e2 r2 s3 = None
      \<and> server cfg e2 r2 s3 =
          (invalid_callback, s3\<lparr>pkce := (pkce s3)(fresh_state e0 := None)\<rparr>, [])"
    unfolding Let_def s1_def [symmetric] s2_def [symmetric] s3_def [symmetric] st_def [symmetric]
    using v1 x1 p2 v2 x2 by (simp add: exchange_block_effect)
next
  assume a: "(\<forall>x \<in> set reqs. \<not> begins_state st x) \<and> completes_state st (e, r)"
  let ?s = "serve cfg reqs (restore t c)"
  have p: "pkce ?s st = None"
    using a by (intro serve_no_begin) (simp_all add: restore_pkce)
  have c: "completes_state st (e, r)" using a by simp
  then have "cb_state e r = Some st" by (simp add: completes_state_def)
  then show "cb_verifier e r ?s = None" by (simp add: cb_verifier_def p)
  show "server cfg e r ?s = (invalid_callback, ?s\<lparr>pkce := (pkce ?s)(st := None)\<rparr>, [])"
    by (simp add: server_completes [OF c] p truthy_def)
qed

lemma inc6: "str_includes ''?code=abc&state=st1'' ''code=''"
  by (simp add: str_includes_def sublist_Cons_right)

theorem pkce_single_use_witness:
  "hd (snd (snd (server cfg0 env0 (get_request ''/'' (Some ''?code=abc&state=st1''))
        (serve cfg0 [(env2, get_request ''/oauth/start'' None)]
           (fst (snd (server cfg0 env0 (get_request ''/oauth/start'' None) s_pending)))))))
     = ExchangeCode ''abc'' ''ver1''
   \<and> fst (server cfg0 env0 (get_request ''/'' (Some ''?code=abc&state=st1''))
        (serve cfg0 [(env0, get_request ''/api/dev-auth/status'' None)]
          (fst (snd (server cfg0 env0 (get_request ''/'' (Some ''?code=abc&state=st1''))
            (serve cfg0 [(env2, get_request ''/oauth/start'' None)]
               (fst (snd (server cfg0 env0 (get_request ''/oauth/start'' None) s_pending)))))))))
     = invalid_callback
   \<and> fst (server cfg0 env0 (get_request ''/'' (Some ''?code=abc&state=st1''))
        (serve cfg0 [(env2, get_request ''/oauth/start'' None)] (restore 0 None)))
     = invalid_callback"
proof -
  let ?start = "get_request ''/oauth/start'' None"
  let ?cb = "get_request ''/'' (Some ''?code=abc&state=st1'')"
  let ?status = "get_request ''/api/dev-auth/status'' None"
  have r0: "route_of ?start = OAuthStart"
    by (simp add: route_of_def is_callback_def get_request_def)
  have rs: "route_of ?status = Status"
    by (simp add: route_of_def is_callback_def get_request_def)
  have f: "fresh_state env0 = ''st1''" "fresh_verifier env0 = ''ver1''" "fresh_state env2 = ''st2''"
    by (simp_all add: env0_def env2_def)
  have c: "completes_state (fresh_state env0) (env0, ?cb)"
    by (simp add: completes_state_def route_of_def is_callback_def get_request_def inc6
        cb_errMsg_def cb_state_def cb_params_def URLSearchParams_def parse_pair_def params_get_def
        nullish_def truthy_def env0_def)
  have code: "cb_code env0 ?cb = Some ''abc''"
    by (simp add: cb_code_def cb_params_def get_request_def URLSearchParams_def parse_pair_def
        params_get_def env0_def)
  have mid: "\<forall>x \<in> set [(env2, ?start)].
      \<not> begins_state (fresh_state env0) x \<and> \<not> completes_state (fresh_state env0) x"
    by (simp add: begins_state_def completes_state_def r0 f)
  have later: "\<forall>x \<in> set [(env0, ?status)]. \<not> begins_state (fresh_state env0) x"
    by (simp add: begins_state_def rs)
  have never: "\<forall>x \<in> set [(env2, ?start)]. \<not> begins_state (fresh_state env0) x"
    by (simp add: begins_state_def f)
  note T = pkce_single_use [where ?r0.0 = ?start and mid = "[(env2, ?start)]" and ?e0.0 = env0
        and ?e1.0 = env0 and ?r1.0 = ?cb and later = "[(env0, ?status)]" and ?e2.0 = env0
        and ?r2.0 = ?cb and cfg = cfg0 and ?s0.0 = s_pending and reqs = "[(env2, ?start)]"
        and st = "fresh_state env0" and e = env0 and r = ?cb and t = 0 and c = None]
  let ?s1 = "serve cfg0 [(env2, ?start)] (fst (snd (server cfg0 env0 ?start s_pending)))"
  let ?s3 = "serve cfg0 [(env0, ?status)] (fst (snd (server cfg0 env0 ?cb ?s1)))"
  have A: "route_of ?start = OAuthStart \<and>
    (\<forall>x \<in> set [(env2, ?start)].
        \<not> begins_state (fresh_state env0) x \<and> \<not> completes_state (fresh_state env0) x) \<and>
    completes_state (fresh_state env0) (env0, ?cb) \<and>
    (\<forall>x \<in> set [(env0, ?status)]. \<not> begins_state (fresh_state env0) x) \<and>
    completes_state (fresh_state env0) (env0, ?cb)"
    using r0 mid c later by blast
  note L = mp [OF conjunct1 [OF T] A, unfolded Let_def]
  have tc: "truthy (cb_code env0 ?cb) \<and> fresh_verifier env0 \<noteq> []"
    by (simp add: code f truthy_def)
  from L tc have "hd (snd (snd (server cfg0 env0 ?cb ?s1))) =
      ExchangeCode (str_of (cb_code env0 ?cb)) (fresh_verifier env0)"
    by blast
  then have 1: "hd (snd (snd (server cfg0 env0 ?cb ?s1))) = ExchangeCode ''abc'' ''ver1''"
    by (simp add: code f str_of_def)
  from L have 2: "fst (server cfg0 env0 ?cb ?s3) = invalid_callback"
    by simp
  have B: "(\<forall>x \<in> set [(env2, ?start)]. \<not> begins_state (fresh_state env0) x) \<and>
      completes_state (fresh_state env0) (env0, ?cb)"
    using never c by blast
  from mp [OF conjunct2 [OF T] B]
  have 3: "fst (server cfg0 env0 ?cb (serve cfg0 [(env2, ?start)] (restore 0 None))) = invalid_callback"
    by simp
  from 1 2 3 show ?thesis by blast
qed

section \<open>Query serialisation of \<open>get\<close>\<close>























end
